(* ===== verification/Prelude.thy ===== *)
theory Prelude
  imports "HOL-Library.Word"
begin

text \<open>
  The shared base of the development: the machine-integer types of the firmware, the
  collections of rewrite rules the components add to, and generic facts about lists
  updated by index, about words and about counters that the component proofs use.
\<close>

unbundle bit_operations_syntax

section \<open>Machine integers\<close>

type_synonym u8 = "8 word"
type_synonym u16 = "16 word"
type_synonym u32 = "32 word"
type_synonym u64 = "64 word"

text \<open>
  \<open>frame_simps\<close> collects the facts "operation \<open>f\<close> leaves field \<open>x\<close> alone",
  \<open>byte_simps\<close> the byte layout facts of the wire format.
\<close>

named_theorems frame_simps
named_theorems byte_simps

section \<open>Lists updated by index\<close>

lemma nth_list_update_if:
  "i < length xs \<Longrightarrow> (xs[i := v]) ! j = (if j = i then v else xs ! j)"
  by (simp add: nth_list_update)

lemma set_list_update_subsetI:
  "set xs \<subseteq> A \<Longrightarrow> v \<in> A \<Longrightarrow> set (xs[i := v]) \<subseteq> A"
  by (metis insert_subset order_trans set_update_subset_insert)

lemma sum_list_map_update:
  fixes f :: "'a \<Rightarrow> 'b::ab_group_add"
  assumes "k < length xs"
  shows "(\<Sum>x\<leftarrow>xs[k := y]. f x) = (\<Sum>x\<leftarrow>xs. f x) + (f y - f (xs ! k))"
  using assms
proof (induction xs arbitrary: k)
  case (Cons x xs)
  then show ?case by (cases k) (simp_all add: algebra_simps)
qed simp

section \<open>Words\<close>

text \<open>\<open>unat\<close> of an increment or decrement that does not wrap.\<close>

lemma unat_inc: "unat (w :: 'a::len word) + 1 < 2 ^ LENGTH('a) \<Longrightarrow> unat (w + 1) = unat w + 1"
  by (simp add: unat_word_ariths)

lemma unat_u32_less: "unat (w :: u32) < 4294967296"
  using unsigned_less [of w] by simp

lemma unat_u32_le: "unat (w :: u32) \<le> 4294967295"
  using unat_u32_less [of w] by linarith

lemma unat_u64_less: "unat (w :: u64) < 18446744073709551616"
  using unsigned_less [of w] by simp

lemma word_eq_of_natI: "unat w = n \<Longrightarrow> (w :: 'a::len word) = of_nat n"
  by auto

lemma unat_dec: "w \<noteq> 0 \<Longrightarrow> unat (w - 1 :: 'a::len word) = unat w - 1"
  by (simp add: unat_minus_one)

lemma unat_ucast_up:
  "LENGTH('a) \<le> LENGTH('b) \<Longrightarrow> unat (ucast (w :: 'a::len word) :: 'b::len word) = unat w"
proof -
  assume len: "LENGTH('a) \<le> LENGTH('b)"
  have "unat w < 2 ^ LENGTH('a)" by simp
  also have "(2::nat) ^ LENGTH('a) \<le> 2 ^ LENGTH('b)"
    using len by (intro power_increasing) auto
  finally show ?thesis
    by (simp add: unsigned_ucast_eq take_bit_nat_eq_self)
qed

text \<open>Testing one bit with a mask, as C does with \<open>x & (1 << n)\<close>.\<close>

lemma and_mask_bit_eq_0:
  "n < LENGTH('a) \<Longrightarrow> (w :: 'a::len word) AND push_bit n 1 = 0 \<longleftrightarrow> \<not> bit w n"
  unfolding bit_eq_iff [of "w AND push_bit n 1" 0] by (auto simp: bit_simps)

lemma unat_u64_max: "unat (- 1 :: u64) = 2 ^ 64 - 1"
  by (simp add: unat_eq_nat_uint unsigned_minus_1_eq_mask mask_eq_exp_minus_1)

lemma unat_u64_room: "unat (- 1 - x :: u64) = 2 ^ 64 - 1 - unat x"
  by (subst unat_sub) (simp_all only: unat_u64_max word_n1_ge)

lemma unat_u64_room_less: "x < y \<Longrightarrow> unat (- 1 - y :: u64) < unat (- 1 - x)"
  using unat_u64_less [of y] unfolding unat_u64_room word_less_nat_alt by simp

end
