(* ===== verification/Harness.thy ===== *)
theory Harness
  imports Prelude
begin

text \<open>
  The shared declarations of \<^verbatim>\<open>firmware/main/harness.h\<close>: the limits of the firmware, its
  state, role and mode enumerations and the configuration record \<^verbatim>\<open>harness_config_t\<close>, with
  \<^verbatim>\<open>harness_state_name\<close> of \<^verbatim>\<open>control.c\<close>.
\<close>

section \<open>Limits\<close>

definition HARNESS_CONTROL_VERSION :: nat where "HARNESS_CONTROL_VERSION = 2"
definition HARNESS_FW_VERSION :: string where "HARNESS_FW_VERSION = ''0.2.1''"
definition HARNESS_MAX_STREAMS :: nat where "HARNESS_MAX_STREAMS = 16"
definition HARNESS_MAX_PACKET_SIZE :: nat where "HARNESS_MAX_PACKET_SIZE = 250"
definition HARNESS_KEY_SIZE :: nat where "HARNESS_KEY_SIZE = 16"
definition HARNESS_MAX_TX_WINDOW :: nat where "HARNESS_MAX_TX_WINDOW = 32"

lemmas harness_limits = HARNESS_CONTROL_VERSION_def HARNESS_FW_VERSION_def
  HARNESS_MAX_STREAMS_def HARNESS_MAX_PACKET_SIZE_def HARNESS_KEY_SIZE_def
  HARNESS_MAX_TX_WINDOW_def

section \<open>Enumerations\<close>

datatype harness_state =
  STATE_BOOT | STATE_IDLE | STATE_CONFIGURED | STATE_ARMED | STATE_RUNNING | STATE_FINISHED
| STATE_ERROR

datatype harness_role =
  ROLE_NONE | ROLE_GENERATOR | ROLE_SINK | ROLE_PING_INITIATOR | ROLE_ECHO_RESPONDER

datatype harness_mode =
  MODE_PING | MODE_STREAM | MODE_MULTI_STREAM | MODE_SATURATION | MODE_LATENCY_LOAD

fun harness_state_name :: "harness_state \<Rightarrow> string" where
  "harness_state_name STATE_BOOT = ''BOOT''"
| "harness_state_name STATE_IDLE = ''IDLE''"
| "harness_state_name STATE_CONFIGURED = ''CONFIGURED''"
| "harness_state_name STATE_ARMED = ''ARMED''"
| "harness_state_name STATE_RUNNING = ''RUNNING''"
| "harness_state_name STATE_FINISHED = ''FINISHED''"
| "harness_state_name STATE_ERROR = ''ERROR''"

lemma harness_state_name_inj: "harness_state_name a = harness_state_name b \<longleftrightarrow> a = b"
  by (cases a; cases b) simp_all

section \<open>The run configuration\<close>

text \<open>
  \<^verbatim>\<open>tx_power_qdbm\<close> is an \<^verbatim>\<open>int8_t\<close>, kept at its width; \<^verbatim>\<open>sint\<close> reads it as a signed value.
  Fixed-size byte arrays are byte lists, character arrays the strings they hold.
\<close>

record harness_config =
  run_id :: u32
  role :: harness_role
  mode :: harness_mode
  peer_mac :: "u8 list"
  band_5ghz :: bool
  country :: string
  channel :: u8
  phy_rate :: string
  tx_power_qdbm :: u8
  power_save :: bool
  encryption :: bool
  key :: "u8 list"
  duration_us :: u64
  packet_size :: u16
  streams :: u16
  tx_window :: u16
  rate_per_stream :: u32
  probe_rate :: u32
  background_packet_size :: u16
  background_rate :: u32

text \<open>The zero-initialised configuration (\<^verbatim>\<open>harness_config_t cfg = {0}\<close> and the initial
  value of the global \<^verbatim>\<open>g_config\<close>).\<close>

definition zero_config :: harness_config where
  "zero_config = \<lparr>run_id = 0, role = ROLE_NONE, mode = MODE_PING, peer_mac = replicate 6 0,
     band_5ghz = False, country = '''', channel = 0, phy_rate = '''', tx_power_qdbm = 0,
     power_save = False, encryption = False, key = replicate HARNESS_KEY_SIZE 0,
     duration_us = 0, packet_size = 0, streams = 0, tx_window = 0, rate_per_stream = 0,
     probe_rate = 0, background_packet_size = 0, background_rate = 0\<rparr>"

end
