(* ===== verification/Cjson.thy ===== *)
theory Cjson
  imports Harness
begin

text \<open>
  The commands arrive as JSON text. The parser is cJSON, a component of ESP-IDF that is not part of
  the repository: it is the parameter \<open>'j cjson\<close>, the five questions the firmware asks of it over
  an opaque document type \<open>'j\<close>. Its numbers are C doubles. A finite double is \<open>Finite n k\<close>, the
  value \<open>n / 2 ^ k\<close>.
\<close>

section \<open>Doubles\<close>

datatype cdouble = NaN | Infinite bool | Finite int nat

text \<open>\<open>Infinite True\<close> is the negative infinity. A comparison with a NaN is false.\<close>

fun d_le :: "cdouble \<Rightarrow> cdouble \<Rightarrow> bool" where
  "d_le NaN y = False"
| "d_le x NaN = False"
| "d_le (Infinite a) (Infinite b) = (a \<or> \<not> b)"
| "d_le (Infinite a) (Finite n k) = a"
| "d_le (Finite n k) (Infinite b) = (\<not> b)"
| "d_le (Finite n k) (Finite m l) = (n * 2 ^ l \<le> m * 2 ^ k)"

definition d_less :: "cdouble \<Rightarrow> cdouble \<Rightarrow> bool" where
  "d_less x y \<longleftrightarrow> d_le x y \<and> \<not> d_le y x"

definition d_eq :: "cdouble \<Rightarrow> cdouble \<Rightarrow> bool" where
  "d_eq x y \<longleftrightarrow> d_le x y \<and> d_le y x"

definition d_int :: "int \<Rightarrow> cdouble" where "d_int n = Finite n 0"

fun d_isfinite :: "cdouble \<Rightarrow> bool" where
  "d_isfinite (Finite n k) = True"
| "d_isfinite _ = False"

text \<open>\<open>d_is_integral x\<close> is \<^verbatim>\<open>floor(x) == x\<close> for a finite \<open>x\<close>.\<close>

fun d_is_integral :: "cdouble \<Rightarrow> bool" where
  "d_is_integral (Finite n k) = (2 ^ k dvd n)"
| "d_is_integral _ = False"

text \<open>Multiplication by 4 is exact for the magnitudes it is used on.\<close>

fun d_times4 :: "cdouble \<Rightarrow> cdouble" where
  "d_times4 (Finite n k) = Finite (n * 4) k"
| "d_times4 x = x"

text \<open>Conversion to an integer type: truncation, defined by C when the value is in range.\<close>

fun d_trunc :: "cdouble \<Rightarrow> int" where
  "d_trunc (Finite n k) = (if n < 0 then - ((- n) div 2 ^ k) else n div 2 ^ k)"
| "d_trunc _ = 0"

lemma d_le_int_iff:
  assumes "d_is_integral x"
  shows "d_le (d_int a) x \<longleftrightarrow> a \<le> d_trunc x" "d_le x (d_int b) \<longleftrightarrow> d_trunc x \<le> b"
proof -
  obtain n k where x: "x = Finite n k" and d: "2 ^ k dvd n" using assms by (cases x) auto
  then obtain q where q: "n = 2 ^ k * q" by blast
  have neg: "2 ^ k * q < 0 \<longleftrightarrow> q < 0" by (simp add: mult_less_0_iff)
  have t: "d_trunc x = q"
    by (simp add: x q neg) (metis add.inverse_inverse mult_minus_right nonzero_mult_div_cancel_left
        power_not_zero zero_neq_numeral)
  show "d_le (d_int a) x \<longleftrightarrow> a \<le> d_trunc x" "d_le x (d_int b) \<longleftrightarrow> d_trunc x \<le> b"
    unfolding t by (simp_all add: x q d_int_def mult.commute [of "2 ^ k"])
qed

lemma d_eq_int_iff: "d_is_integral x \<Longrightarrow> d_eq x (d_int a) \<longleftrightarrow> d_trunc x = a"
  by (auto simp: d_eq_def d_le_int_iff)

lemma d_trunc_int [simp]: "d_trunc (d_int a) = a" "d_is_integral (d_int a)" "d_isfinite (d_int a)"
  by (simp_all add: d_int_def)

section \<open>The document interface\<close>

text \<open>
  \<open>cj_item\<close> is \<^verbatim>\<open>cJSON_GetObjectItemCaseSensitive\<close>; \<open>cj_string\<close>, \<open>cj_number\<close> and \<open>cj_bool\<close> give the
  value of an item of that kind. \<open>cj_parse\<close> is \<^verbatim>\<open>cJSON_Parse\<close> on one line of input.
\<close>

record 'j cjson =
  cj_parse :: "string \<Rightarrow> 'j option"
  cj_item :: "'j \<Rightarrow> string \<Rightarrow> 'j option"
  cj_is_object :: "'j \<Rightarrow> bool"
  cj_string :: "'j \<Rightarrow> string option"
  cj_number :: "'j \<Rightarrow> cdouble option"
  cj_bool :: "'j \<Rightarrow> bool option"

definition object_item :: "'j cjson \<Rightarrow> 'j \<Rightarrow> string \<Rightarrow> 'j option" where
  "object_item J parent name =
     (case cj_item J parent name of
        None \<Rightarrow> None | Some item \<Rightarrow> if cj_is_object J item then Some item else None)"

definition string_item :: "'j cjson \<Rightarrow> 'j \<Rightarrow> string \<Rightarrow> string option" where
  "string_item J parent name =
     (case cj_item J parent name of None \<Rightarrow> None | Some item \<Rightarrow> cj_string J item)"

definition number_item :: "'j cjson \<Rightarrow> 'j \<Rightarrow> string \<Rightarrow> cdouble \<Rightarrow> cdouble" where
  "number_item J parent name fallback =
     (case cj_item J parent name of
        None \<Rightarrow> fallback
      | Some item \<Rightarrow> (case cj_number J item of None \<Rightarrow> fallback | Some v \<Rightarrow> v))"

definition bool_item :: "'j cjson \<Rightarrow> 'j \<Rightarrow> string \<Rightarrow> bool \<Rightarrow> bool" where
  "bool_item J parent name fallback =
     (case cj_item J parent name of
        None \<Rightarrow> fallback
      | Some item \<Rightarrow> (case cj_bool J item of None \<Rightarrow> fallback | Some b \<Rightarrow> b))"

definition integer_in_range :: "cdouble \<Rightarrow> int \<Rightarrow> int \<Rightarrow> bool" where
  "integer_in_range v lo hi \<longleftrightarrow>
     d_isfinite v \<and> d_le (d_int lo) v \<and> d_le v (d_int hi) \<and> d_is_integral v"

lemma integer_in_range_iff:
  "integer_in_range v lo hi \<longleftrightarrow> d_is_integral v \<and> lo \<le> d_trunc v \<and> d_trunc v \<le> hi"
proof -
  have "d_is_integral v \<Longrightarrow> d_isfinite v" by (cases v) auto
  then show ?thesis by (auto simp: integer_in_range_def d_le_int_iff)
qed

section \<open>Replies\<close>

text \<open>The tree a reply builds with the cJSON constructors, members in the order they are added.\<close>

datatype json = JObj "(string \<times> json) list" | JArr "json list" | JStr string | JNum cdouble | JBool bool

section \<open>A concrete document type\<close>

text \<open>
  For evaluation: documents as a tree, an object as its list of members, and no text parser.
\<close>

datatype doc = DObj "(string \<times> doc) list" | DStr string | DNum cdouble | DBool bool | DNull

fun doc_item :: "doc \<Rightarrow> string \<Rightarrow> doc option" where
  "doc_item (DObj ms) name = map_of ms name"
| "doc_item _ name = None"

definition doc_json :: "(string \<Rightarrow> doc option) \<Rightarrow> doc cjson" where
  "doc_json parse = \<lparr>cj_parse = parse, cj_item = doc_item,
     cj_is_object = (\<lambda>d. case d of DObj _ \<Rightarrow> True | _ \<Rightarrow> False),
     cj_string = (\<lambda>d. case d of DStr s \<Rightarrow> Some s | _ \<Rightarrow> None),
     cj_number = (\<lambda>d. case d of DNum x \<Rightarrow> Some x | _ \<Rightarrow> None),
     cj_bool = (\<lambda>d. case d of DBool b \<Rightarrow> Some b | _ \<Rightarrow> None)\<rparr>"

lemmas doc_eval = doc_json_def object_item_def string_item_def number_item_def bool_item_def

end
