(* ===== verification/Protocol.thy ===== *)
theory Protocol
  imports Harness
begin

text \<open>
  The wire format of \<^verbatim>\<open>firmware/main/protocol.c\<close>: big-endian stores and loads, the header
  encoder \<open>bench_encode\<close> and decoder \<open>bench_decode\<close>, their exact acceptance conditions and
  the round trips. A buffer is a byte list, a pointer that may be null an \<open>option\<close>; a store
  through \<open>p + k\<close> is an update at index \<open>k\<close>.
\<close>

section \<open>Big-endian stores and loads\<close>

definition put16 :: "nat \<Rightarrow> u16 \<Rightarrow> u8 list \<Rightarrow> u8 list" where
  "put16 p v b = b[p := ucast (drop_bit 8 v), p + 1 := ucast v]"

definition put32 :: "nat \<Rightarrow> u32 \<Rightarrow> u8 list \<Rightarrow> u8 list" where
  "put32 p v b = b[p := ucast (drop_bit 24 v), p + 1 := ucast (drop_bit 16 v),
                   p + 2 := ucast (drop_bit 8 v), p + 3 := ucast v]"

definition put64 :: "nat \<Rightarrow> u64 \<Rightarrow> u8 list \<Rightarrow> u8 list" where
  "put64 p v b = put32 (p + 4) (ucast v) (put32 p (ucast (drop_bit 32 v)) b)"

definition get16 :: "nat \<Rightarrow> u8 list \<Rightarrow> u16" where
  "get16 p b = push_bit 8 (ucast (b ! p)) OR ucast (b ! (p + 1))"

definition get32 :: "nat \<Rightarrow> u8 list \<Rightarrow> u32" where
  "get32 p b = push_bit 24 (ucast (b ! p)) OR push_bit 16 (ucast (b ! (p + 1))) OR
               push_bit 8 (ucast (b ! (p + 2))) OR ucast (b ! (p + 3))"

definition get64 :: "nat \<Rightarrow> u8 list \<Rightarrow> u64" where
  "get64 p b = push_bit 32 (ucast (get32 p b)) OR ucast (get32 (p + 4) b)"

text \<open>The bytes of a word, most significant first, and the facts that tie them to the
  stores and loads.\<close>

lemma length_put [simp]:
  "length (put16 p v b) = length b" "length (put32 p w b) = length b"
  "length (put64 p x b) = length b"
  by (simp_all add: put16_def put32_def put64_def)

lemma nth_put16:
  "p + 1 < length b \<Longrightarrow> put16 p v b ! i =
     (if i = p then ucast (drop_bit 8 v) else if i = p + 1 then ucast v else b ! i)"
  by (simp add: put16_def nth_list_update)

lemma nth_put32:
  "p + 3 < length b \<Longrightarrow> put32 p v b ! i =
     (if i = p then ucast (drop_bit 24 v) else if i = p + 1 then ucast (drop_bit 16 v)
      else if i = p + 2 then ucast (drop_bit 8 v) else if i = p + 3 then ucast v else b ! i)"
  by (simp add: put32_def nth_list_update)

lemma get16_cong: "b ! p = c ! p \<Longrightarrow> b ! (p + 1) = c ! (p + 1) \<Longrightarrow> get16 p b = get16 p c"
  by (simp add: get16_def)

lemma get16_bytes:
  "push_bit 8 (ucast (ucast (drop_bit 8 (v :: u16)) :: u8)) OR ucast (ucast v :: u8) = v"
  by (rule bit_word_eqI) (auto simp: bit_simps)

lemma get32_bytes:
  "push_bit 24 (ucast (ucast (drop_bit 24 (v :: u32)) :: u8)) OR
   push_bit 16 (ucast (ucast (drop_bit 16 v) :: u8)) OR
   push_bit 8 (ucast (ucast (drop_bit 8 v) :: u8)) OR ucast (ucast v :: u8) = v"
  (is "?l = v")
proof (rule bit_word_eqI)
  fix n assume n: "n < LENGTH(32)"
  consider "n < 8" | "8 \<le> n" "n < 16" | "16 \<le> n" "n < 24" | "24 \<le> n" by linarith
  then show "bit ?l n \<longleftrightarrow> bit v n" using n by cases (auto simp: bit_simps)
qed

lemma get64_words:
  "push_bit 32 (ucast (ucast (drop_bit 32 (v :: u64)) :: u32)) OR ucast (ucast v :: u32) = v"
  by (rule bit_word_eqI) (auto simp: bit_simps)

lemma put16_bytes:
  "(ucast (drop_bit 8 (push_bit 8 (ucast (x :: u8)) OR ucast (y :: u8) :: u16)) :: u8) = x"
  "(ucast (push_bit 8 (ucast (x :: u8)) OR ucast (y :: u8) :: u16) :: u8) = y"
  by (rule bit_word_eqI; auto simp: bit_simps dest: bit_imp_le_length)+

section \<open>The benchmark header\<close>

definition BENCH_MAGIC :: u32 where "BENCH_MAGIC = 0x4553504e"
definition BENCH_PROTOCOL_VERSION :: u8 where "BENCH_PROTOCOL_VERSION = 1"
definition BENCH_HEADER_SIZE :: nat where "BENCH_HEADER_SIZE = 28"

text \<open>\<^verbatim>\<open>bench_packet_type_t\<close>: the enumeration's numeric values, as stored in the type byte.\<close>

definition PACKET_STREAM :: u8 where "PACKET_STREAM = 1"
definition PACKET_PING :: u8 where "PACKET_PING = 2"
definition PACKET_ECHO :: u8 where "PACKET_ECHO = 3"

lemmas packet_types = PACKET_STREAM_def PACKET_PING_def PACKET_ECHO_def

record bench_header =
  h_type :: u8
  h_flags :: u16
  h_run_id :: u32
  h_stream_id :: u16
  h_packet_len :: u16
  h_seq :: u32
  h_timestamp_us :: u64

text \<open>
  \<^verbatim>\<open>bench_encode(d, n, h)\<close>: \<open>n\<close> is the capacity the caller states. The stores stay inside
  the first 28 bytes of \<open>d\<close>.
\<close>

definition bench_encode ::
  "u8 list option \<Rightarrow> nat \<Rightarrow> bench_header option \<Rightarrow> bool \<times> u8 list option" where
  "bench_encode d n h =
     (case (d, h) of
        (Some b, Some hdr) \<Rightarrow>
          if n < unat (h_packet_len hdr) \<or> unat (h_packet_len hdr) < BENCH_HEADER_SIZE
          then (False, d)
          else (let b = put32 0 BENCH_MAGIC b;
                    b = b[4 := BENCH_PROTOCOL_VERSION];
                    b = b[5 := h_type hdr];
                    b = put16 6 (h_flags hdr) b;
                    b = put32 8 (h_run_id hdr) b;
                    b = put16 12 (h_stream_id hdr) b;
                    b = put16 14 (h_packet_len hdr) b;
                    b = put32 16 (h_seq hdr) b;
                    b = put64 20 (h_timestamp_us hdr) b
                in (True, Some b))
      | _ \<Rightarrow> (False, d))"

text \<open>
  \<^verbatim>\<open>bench_decode(s, n, h)\<close>: the header is written before the last check, so a frame that
  fails on length or stream id leaves the decoded fields behind in \<open>h\<close>.
\<close>

definition bench_decode ::
  "u8 list option \<Rightarrow> nat \<Rightarrow> bench_header option \<Rightarrow> bool \<times> bench_header option" where
  "bench_decode s n h =
     (case (s, h) of
        (Some b, Some _) \<Rightarrow>
          if n < BENCH_HEADER_SIZE \<or> get32 0 b \<noteq> BENCH_MAGIC \<or> b ! 4 \<noteq> BENCH_PROTOCOL_VERSION
          then (False, h)
          else (let hdr = \<lparr>h_type = b ! 5, h_flags = get16 6 b, h_run_id = get32 8 b,
                          h_stream_id = get16 12 b, h_packet_len = get16 14 b,
                          h_seq = get32 16 b, h_timestamp_us = get64 20 b\<rparr>
                in (unat (h_packet_len hdr) = n \<and> unat (h_stream_id hdr) < 16, Some hdr))
      | _ \<Rightarrow> (False, h))"

section \<open>Acceptance conditions\<close>

lemma bench_encode_accepts:
  "fst (bench_encode (Some b) n (Some h)) \<longleftrightarrow>
     BENCH_HEADER_SIZE \<le> unat (h_packet_len h) \<and> unat (h_packet_len h) \<le> n"
  by (auto simp: bench_encode_def Let_def)

lemma bench_encode_null [simp]:
  "bench_encode None n h = (False, None)" "bench_encode d n None = (False, d)"
  by (simp_all add: bench_encode_def split: option.split)

lemma bench_decode_null [simp]:
  "bench_decode None n h = (False, h)" "bench_decode s n None = (False, None)"
  by (simp_all add: bench_decode_def split: option.split)

lemma bench_decode_TrueD:
  assumes "bench_decode (Some b) n (Some h0) = (True, Some h)"
  shows "BENCH_HEADER_SIZE \<le> n" "get32 0 b = BENCH_MAGIC" "b ! 4 = BENCH_PROTOCOL_VERSION"
    "h_type h = b ! 5" "h_flags h = get16 6 b" "h_run_id h = get32 8 b"
    "h_stream_id h = get16 12 b" "h_packet_len h = get16 14 b" "h_seq h = get32 16 b"
    "h_timestamp_us h = get64 20 b" "unat (h_packet_len h) = n" "unat (h_stream_id h) < 16"
  using assms by (auto simp: bench_decode_def Let_def not_less split: if_splits)

text \<open>The bytes an accepted encode leaves in the buffer.\<close>

lemma bench_encode_TrueE:
  assumes enc: "bench_encode (Some b) n (Some h) = (True, Some b')" and len: "28 \<le> length b"
  shows "length b' = length b" "get32 0 b' = BENCH_MAGIC" "b' ! 4 = BENCH_PROTOCOL_VERSION"
    "b' ! 5 = h_type h" "get16 6 b' = h_flags h" "get32 8 b' = h_run_id h"
    "get16 12 b' = h_stream_id h" "get16 14 b' = h_packet_len h" "get32 16 b' = h_seq h"
    "get64 20 b' = h_timestamp_us h" "drop 28 b' = drop 28 b"
proof -
  note d = bench_encode_def put64_def nth_put16 nth_put32 nth_list_update_if
  note r = get16_bytes get32_bytes get64_words
  from enc have b': "b' = put64 20 (h_timestamp_us h) (put32 16 (h_seq h)
      (put16 14 (h_packet_len h) (put16 12 (h_stream_id h) (put32 8 (h_run_id h)
      (put16 6 (h_flags h) ((put32 0 BENCH_MAGIC b)[4 := BENCH_PROTOCOL_VERSION, 5 := h_type h]))))))"
    by (simp add: bench_encode_def Let_def split: if_splits)
  show "length b' = length b" by (simp add: b')
  show "get32 0 b' = BENCH_MAGIC" "b' ! 4 = BENCH_PROTOCOL_VERSION"
    "b' ! 5 = h_type h" "get16 6 b' = h_flags h" "get32 8 b' = h_run_id h"
    "get16 12 b' = h_stream_id h" "get16 14 b' = h_packet_len h" "get32 16 b' = h_seq h"
    "get64 20 b' = h_timestamp_us h"
    using len by (simp_all add: b' d r get16_def get32_def get64_def)
  show "drop 28 b' = drop 28 b"
    by (simp add: b' put16_def put32_def put64_def)
qed

section \<open>Round trips\<close>

lemma get_take:
  "p + 1 < n \<Longrightarrow> get16 p (take n b) = get16 p b"
  "p + 3 < n \<Longrightarrow> get32 p (take n b) = get32 p b"
  "p + 7 < n \<Longrightarrow> get64 p (take n b) = get64 p b"
  by (simp_all add: get16_def get32_def get64_def)

text \<open>
  A frame is a buffer with its exact length. \<open>encode_frame size h\<close> is what the generator does:
  encode into a buffer of 250 bytes filled with \<open>0xa5\<close>, then hand over the first \<open>size\<close> bytes.
\<close>

definition decode_frame :: "u8 list \<Rightarrow> bench_header option" where
  "decode_frame b =
     (let r = bench_decode (Some b) (length b)
         (Some \<lparr>h_type = 0, h_flags = 0, h_run_id = 0, h_stream_id = 0, h_packet_len = 0,
                h_seq = 0, h_timestamp_us = 0\<rparr>)
      in if fst r then snd r else None)"

definition encode_frame :: "bench_header \<Rightarrow> u8 list \<Rightarrow> u8 list option" where
  "encode_frame h b =
     (case bench_encode (Some b) (length b) (Some h) of
        (True, Some b') \<Rightarrow> Some (take (unat (h_packet_len h)) b')
      | _ \<Rightarrow> None)"

lemma bench_decode_out: "fst (bench_decode s n h) \<Longrightarrow> snd (bench_decode s n h) \<noteq> None"
  by (auto simp: bench_decode_def Let_def split: option.splits if_splits)

lemma bench_decode_frame_iff:
  "bench_decode (Some b) (length b) (Some h0) = (True, Some h) \<longleftrightarrow> decode_frame b = Some h"
  by (auto simp: decode_frame_def bench_decode_def Let_def split: if_splits)

lemma decode_frameD:
  assumes "decode_frame b = Some h"
  shows "28 \<le> length b" "get32 0 b = BENCH_MAGIC" "b ! 4 = BENCH_PROTOCOL_VERSION"
    "h_type h = b ! 5" "h_flags h = get16 6 b" "h_run_id h = get32 8 b"
    "h_stream_id h = get16 12 b" "h_packet_len h = get16 14 b" "h_seq h = get32 16 b"
    "h_timestamp_us h = get64 20 b" "unat (h_packet_len h) = length b"
    "unat (h_stream_id h) < 16"
  using bench_decode_TrueD [OF iffD2 [OF bench_decode_frame_iff assms]]
  by (simp_all add: BENCH_HEADER_SIZE_def)

lemma decode_frame_iff:
  "decode_frame b = Some h \<longleftrightarrow>
     28 \<le> length b \<and> get32 0 b = BENCH_MAGIC \<and> b ! 4 = BENCH_PROTOCOL_VERSION \<and>
     unat (get16 14 b) = length b \<and> unat (get16 12 b) < 16 \<and>
     h = \<lparr>h_type = b ! 5, h_flags = get16 6 b, h_run_id = get32 8 b, h_stream_id = get16 12 b,
          h_packet_len = get16 14 b, h_seq = get32 16 b, h_timestamp_us = get64 20 b\<rparr>"
  by (auto simp: decode_frame_def bench_decode_def Let_def BENCH_HEADER_SIZE_def split: if_splits)

lemma encode_frame_SomeD:
  assumes "encode_frame h b = Some f"
  obtains b' where "bench_encode (Some b) (length b) (Some h) = (True, Some b')"
    "f = take (unat (h_packet_len h)) b'" "28 \<le> unat (h_packet_len h)"
    "unat (h_packet_len h) \<le> length b"
proof -
  from assms obtain b' where b': "bench_encode (Some b) (length b) (Some h) = (True, Some b')"
    "f = take (unat (h_packet_len h)) b'"
    by (auto simp: encode_frame_def split: prod.splits option.splits bool.splits)
  moreover from b'(1) have "fst (bench_encode (Some b) (length b) (Some h))" by simp
  then have "28 \<le> unat (h_packet_len h)" "unat (h_packet_len h) \<le> length b"
    by (simp_all add: bench_encode_accepts BENCH_HEADER_SIZE_def)
  ultimately show thesis using that by blast
qed

lemma decode_encode_frame:
  assumes enc: "encode_frame h b = Some f" and sid: "unat (h_stream_id h) < 16"
  shows "decode_frame f = Some h"
proof -
  obtain b' where b': "bench_encode (Some b) (length b) (Some h) = (True, Some b')"
    and f: "f = take (unat (h_packet_len h)) b'"
    and len: "28 \<le> unat (h_packet_len h)" "unat (h_packet_len h) \<le> length b"
    using enc by (rule encode_frame_SomeD)
  have "28 \<le> length b" using len by linarith
  note e = bench_encode_TrueE [OF b' this]
  show ?thesis
    using len sid by (auto simp: decode_frame_iff f e get_take)
qed

text \<open>Writing back what was read leaves a buffer as it was.\<close>

lemma put16_get16: "p + 1 < length b \<Longrightarrow> put16 p (get16 p b) b = b"
  by (rule nth_equalityI) (auto simp: nth_put16 get16_def put16_bytes simp del: drop_bit_or)

lemma put32_bytes:
  fixes w x y z :: u8
  defines "v \<equiv> push_bit 24 (ucast w) OR push_bit 16 (ucast x) OR push_bit 8 (ucast y) OR ucast z :: u32"
  shows "ucast (drop_bit 24 v) = w" "ucast (drop_bit 16 v) = x" "ucast (drop_bit 8 v) = y"
    "ucast v = z"
  unfolding v_def by (rule bit_word_eqI; auto simp: bit_simps dest: bit_imp_le_length)+

lemma put32_get32: "p + 3 < length b \<Longrightarrow> put32 p (get32 p b) b = b"
  by (rule nth_equalityI) (auto simp: nth_put32 get32_def put32_bytes simp del: drop_bit_or)

lemma put64_words:
  fixes x y :: u32
  shows "(ucast (drop_bit 32 (push_bit 32 (ucast x) OR ucast y :: u64)) :: u32) = x"
    "(ucast (push_bit 32 (ucast x) OR ucast y :: u64) :: u32) = y"
  by (rule bit_word_eqI; auto simp: bit_simps dest: bit_imp_le_length)+

lemma put64_get64: "p + 7 < length b \<Longrightarrow> put64 p (get64 p b) b = b"
  by (simp add: put64_def get64_def put64_words put32_get32 del: drop_bit_or)

lemma encode_decode_frame:
  assumes dec: "decode_frame b = Some h"
  shows "encode_frame h b = Some b"
proof -
  note d = decode_frameD [OF dec]
  have "b[0 := b ! 0] = b" by simp
  have "put32 0 BENCH_MAGIC b = b"
    using put32_get32 [of 0 b] d(1,2) by simp
  moreover have "b[4 := BENCH_PROTOCOL_VERSION] = b" "b[5 := h_type h] = b"
    using d(3,4) by (metis list_update_id)+
  ultimately have "bench_encode (Some b) (length b) (Some h) = (True, Some b)"
    using d by (simp add: bench_encode_def Let_def BENCH_HEADER_SIZE_def put16_get16 put32_get32
        put64_get64)
  then show ?thesis using d by (simp add: encode_frame_def)
qed

section \<open>The codec contract\<close>

text \<open>
  What the generator, the receiver and the host rely on: encoding and decoding are inverse to
  each other on well-formed headers, and only well-formed headers are decoded. The firmware's
  codec and the host's are two implementations of it.
\<close>

locale frame_codec =
  fixes enc :: "'h \<Rightarrow> 'b \<Rightarrow> 'b option"
    and dec :: "'b \<Rightarrow> 'h option"
    and wf :: "'h \<Rightarrow> bool"
  assumes dec_enc: "wf h \<Longrightarrow> enc h b = Some f \<Longrightarrow> dec f = Some h"
    and enc_dec: "dec f = Some h \<Longrightarrow> enc h f = Some f"
    and dec_wf: "dec f = Some h \<Longrightarrow> wf h"
begin

lemma dec_iff_enc: "dec f = Some h \<longleftrightarrow> wf h \<and> enc h f = Some f"
  using dec_enc enc_dec dec_wf by blast

lemma enc_inj:
  assumes "wf h" "wf h'" "enc h b = Some f" "enc h' b' = Some f"
  shows "h = h'"
  using dec_enc [OF assms(1,3)] dec_enc [OF assms(2,4)] by simp

lemma accepted_frames_exist: "wf h \<Longrightarrow> enc h b = Some f \<Longrightarrow> \<exists>f'. dec f' = Some h \<and> enc h f' = Some f'"
  using dec_enc enc_dec by blast

lemma enc_idem: "wf h \<Longrightarrow> enc h b = Some f \<Longrightarrow> enc h f = Some f"
  using dec_enc enc_dec by blast

end

text \<open>The 16 streams of the metrics table bound the stream id of a well-formed header.\<close>

definition header_wf :: "bench_header \<Rightarrow> bool" where
  "header_wf h \<longleftrightarrow> unat (h_stream_id h) < HARNESS_MAX_STREAMS"

interpretation fw_codec: frame_codec encode_frame decode_frame header_wf
  by unfold_locales
    (auto simp: header_wf_def HARNESS_MAX_STREAMS_def
      intro: decode_encode_frame encode_decode_frame dest: decode_frameD)

text \<open>Rewriting the type byte of a frame, as the echo responder does, changes the type only.\<close>

lemma decode_frame_set_type:
  assumes "decode_frame b = Some h"
  shows "decode_frame (b[5 := t]) = Some (h\<lparr>h_type := t\<rparr>)"
proof -
  note d = decode_frameD [OF assms]
  have "get16 p (b[5 := t]) = get16 p b" if "p > 5" for p
    using that by (simp add: get16_def)
  moreover have "get32 p (b[5 := t]) = get32 p b" if "p > 5 \<or> p + 3 < 5" for p
    using that by (auto simp: get32_def)
  ultimately show ?thesis
    using d by (simp add: decode_frame_iff get64_def)
qed

lemma encode_frame_exists:
  assumes "28 \<le> unat (h_packet_len h)" "unat (h_packet_len h) \<le> length b"
  shows "\<exists>f. encode_frame h b = Some f"
proof -
  have "fst (bench_encode (Some b) (length b) (Some h))"
    using assms by (simp add: bench_encode_accepts BENCH_HEADER_SIZE_def)
  then show ?thesis
    by (auto simp: encode_frame_def bench_encode_def Let_def split: if_splits)
qed

end
