(* ===== verification/Host_Protocol.thy ===== *)
theory Host_Protocol
  imports Protocol
begin

text \<open>
  The host's half of the wire format, \<^verbatim>\<open>host/src/protocol.rs\<close>: \<^verbatim>\<open>BenchHeader::encode\<close> and
  \<^verbatim>\<open>BenchHeader::decode\<close>, compared with the firmware's codec, and the host's exact
  \<^verbatim>\<open>SequenceTracker\<close>, which the firmware's sliding bitmap is compared with in \<open>Sequence\<close>.
\<close>

section \<open>Byte order of the Rust integers\<close>

definition to_be_bytes :: "nat \<Rightarrow> 'a::len word \<Rightarrow> u8 list" where
  "to_be_bytes n w = map (\<lambda>i. ucast (drop_bit (8 * (n - 1 - i)) w)) [0..<n]"

definition from_be_bytes :: "u8 list \<Rightarrow> 'a::len word" where
  "from_be_bytes bs = foldl (\<lambda>a b. push_bit 8 a OR ucast b) 0 bs"

section \<open>Encoding and decoding\<close>

datatype decode_error = Too_Short | Bad_Magic | Unsupported_Version u8 | Length_Mismatch

definition host_encode :: "bench_header \<Rightarrow> u8 list" where
  "host_encode h =
     to_be_bytes 4 BENCH_MAGIC @ [BENCH_PROTOCOL_VERSION] @ [h_type h] @
     to_be_bytes 2 (h_flags h) @ to_be_bytes 4 (h_run_id h) @ to_be_bytes 2 (h_stream_id h) @
     to_be_bytes 2 (h_packet_len h) @ to_be_bytes 4 (h_seq h) @ to_be_bytes 8 (h_timestamp_us h)"

definition subrange :: "nat \<Rightarrow> nat \<Rightarrow> u8 list \<Rightarrow> u8 list" where
  "subrange i j b = take (j - i) (drop i b)"

definition host_decode :: "u8 list \<Rightarrow> decode_error + bench_header" where
  "host_decode b =
     (if length b < BENCH_HEADER_SIZE then Inl Too_Short
      else if from_be_bytes (subrange 0 4 b) \<noteq> BENCH_MAGIC then Inl Bad_Magic
      else if b ! 4 \<noteq> BENCH_PROTOCOL_VERSION then Inl (Unsupported_Version (b ! 4))
      else let packet_len = from_be_bytes (subrange 14 16 b) :: u16 in
        if unat packet_len \<noteq> length b then Inl Length_Mismatch
        else Inr \<lparr>h_type = b ! 5, h_flags = from_be_bytes (subrange 6 8 b),
                  h_run_id = from_be_bytes (subrange 8 12 b),
                  h_stream_id = from_be_bytes (subrange 12 14 b), h_packet_len = packet_len,
                  h_seq = from_be_bytes (subrange 16 20 b),
                  h_timestamp_us = from_be_bytes (subrange 20 28 b)\<rparr>)"

lemma subrange_map: "p + n \<le> length b \<Longrightarrow> subrange p (p + n) b = map (\<lambda>i. b ! (p + i)) [0..<n]"
  by (rule nth_equalityI) (auto simp: subrange_def)

lemma upt_literals:
  "[0..<2] = [0, 1 :: nat]" "[0..<4] = [0, 1, 2, 3 :: nat]"
  "[0..<8] = [0, 1, 2, 3, 4, 5, 6, 7 :: nat]"
  by (simp_all add: upt_rec)

lemma from_be_subrange16:
  "p + 1 < length b \<Longrightarrow> from_be_bytes (subrange p (p + 2) b) = get16 p b"
  by (simp add: subrange_map from_be_bytes_def get16_def upt_literals del: add_2_eq_Suc')

lemma from_be_subrange32:
  "p + 3 < length b \<Longrightarrow> from_be_bytes (subrange p (p + 4) b) = get32 p b"
  by (simp add: subrange_map from_be_bytes_def get32_def upt_literals or.assoc
      del: add_2_eq_Suc')

lemma ucast_push_byte:
  "k \<le> 24 \<Longrightarrow> (ucast (push_bit k (ucast (a :: u8)) :: u32) :: u64) = push_bit k (ucast a)"
  by (rule bit_word_eqI) (auto simp: bit_simps dest: bit_imp_le_length)

lemma ucast_byte: "(ucast (ucast (a :: u8) :: u32) :: u64) = ucast a"
  by (rule bit_word_eqI) (auto simp: bit_simps dest: bit_imp_le_length)

lemma from_be_subrange64:
  "p + 7 < length b \<Longrightarrow> from_be_bytes (subrange p (p + 8) b) = get64 p b"
  by (simp add: subrange_map from_be_bytes_def get64_def get32_def upt_literals or.assoc
      unsigned_or_eq ucast_push_byte ucast_byte add.commute [of 5 p]
      add.commute [of 6 p] add.commute [of 7 p] del: add_2_eq_Suc')

text \<open>
  The firmware accepts exactly the frames the host accepts whose stream id is below 16; the
  host's decoder has no such check.
\<close>

lemma host_decode_frame_iff:
  "decode_frame b = Some h \<longleftrightarrow> host_decode b = Inr h \<and> header_wf h"
proof (cases "28 \<le> length b")
  case True
  note r = from_be_subrange16 [of 6 b] from_be_subrange16 [of 12 b] from_be_subrange16 [of 14 b]
    from_be_subrange32 [of 0 b] from_be_subrange32 [of 8 b] from_be_subrange32 [of 16 b]
    from_be_subrange64 [of 20 b]
  show ?thesis
    using True r by (auto simp: decode_frame_iff host_decode_def BENCH_HEADER_SIZE_def Let_def
        header_wf_def HARNESS_MAX_STREAMS_def)
next
  case False
  then show ?thesis by (auto simp: decode_frame_iff host_decode_def BENCH_HEADER_SIZE_def)
qed

text \<open>The host's 28 header bytes are the first 28 bytes of the firmware's frame.\<close>

lemma length_host_encode [simp]: "length (host_encode h) = 28"
  by (simp add: host_encode_def to_be_bytes_def)

lemma byte_of_high_word:
  "k \<le> 24 \<Longrightarrow> (ucast (drop_bit k (ucast (drop_bit 32 (t :: u64)) :: u32)) :: u8)
     = ucast (drop_bit (32 + k) t)"
  by (rule bit_word_eqI) (auto simp: bit_simps ac_simps)

lemma byte_of_low_word:
  "k \<le> 24 \<Longrightarrow> (ucast (drop_bit k (ucast (t :: u64) :: u32)) :: u8) = ucast (drop_bit k t)"
  by (rule bit_word_eqI) (auto simp: bit_simps)

lemma upt28: "[0..<28] = [0, 1, 2, 3, 4, 5, 6, 7, 8, 9, 10, 11, 12, 13, 14, 15, 16, 17, 18, 19,
    20, 21, 22, 23, 24, 25, 26, 27 :: nat]"
  by (simp add: upt_rec)

lemma bench_encode_host:
  assumes enc: "bench_encode (Some b) n (Some h) = (True, Some b')" and len: "28 \<le> length b"
  shows "b' = host_encode h @ drop 28 b"
proof -
  from enc have b': "b' = put64 20 (h_timestamp_us h) (put32 16 (h_seq h)
      (put16 14 (h_packet_len h) (put16 12 (h_stream_id h) (put32 8 (h_run_id h)
      (put16 6 (h_flags h) ((put32 0 BENCH_MAGIC b)[4 := BENCH_PROTOCOL_VERSION, 5 := h_type h]))))))"
    by (simp add: bench_encode_def Let_def split: if_splits)
  have "take 28 b' = map ((!) b') [0..<28]"
    using len by (intro nth_equalityI) (auto simp: b')
  also have "\<dots> = host_encode h"
    unfolding upt28 host_encode_def to_be_bytes_def upt_literals
    using len byte_of_high_word [of 0 "h_timestamp_us h"] byte_of_low_word [of 0 "h_timestamp_us h"]
    by (simp add: b' put64_def nth_put16 nth_put32 nth_list_update_if byte_of_high_word
        byte_of_low_word)
  finally have "take 28 b' = host_encode h" .
  with bench_encode_TrueE(11) [OF enc len] show ?thesis
    by (metis append_take_drop_id)
qed

section \<open>The host's sequence tracker\<close>

text \<open>
  \<^verbatim>\<open>SequenceTracker\<close> keeps every sequence number it has seen in a hash set, so its counts
  are exact. The counters are \<^verbatim>\<open>u64\<close>.
\<close>

record sequence_tracker =
  initialized :: bool
  max_seq :: u32
  seen :: "u32 set"
  received :: u64
  st_duplicate :: u64
  st_out_of_order :: u64

definition default_tracker :: sequence_tracker where
  "default_tracker = \<lparr>initialized = False, max_seq = 0, seen = {}, received = 0,
     st_duplicate = 0, st_out_of_order = 0\<rparr>"

definition observe :: "sequence_tracker \<Rightarrow> u32 \<Rightarrow> sequence_tracker" where
  "observe t s =
     (let t = t\<lparr>received := received t + 1\<rparr> in
      if s \<in> seen t then t\<lparr>st_duplicate := st_duplicate t + 1\<rparr>
      else
        let t = t\<lparr>seen := insert s (seen t)\<rparr>;
            t = (if initialized t \<and> s < max_seq t
                 then t\<lparr>st_out_of_order := st_out_of_order t + 1\<rparr> else t)
        in if \<not> initialized t \<or> s > max_seq t
           then t\<lparr>max_seq := s, initialized := True\<rparr> else t)"

definition estimated_missing :: "sequence_tracker \<Rightarrow> u64" where
  "estimated_missing t =
     (if \<not> initialized t then 0
      else let a = ucast (max_seq t) + 1; b = of_nat (card (seen t)) in if a < b then 0 else a - b)"

text \<open>The set of the tracker is the set of what it was given, and its maximum the maximum.\<close>

definition tracker_inv :: "sequence_tracker \<Rightarrow> bool" where
  "tracker_inv t \<longleftrightarrow> finite (seen t) \<and> (initialized t \<longleftrightarrow> seen t \<noteq> {}) \<and>
     (initialized t \<longrightarrow> max_seq t = Max (seen t))"

lemma tracker_inv_default: "tracker_inv default_tracker"
  by (simp add: tracker_inv_def default_tracker_def)

lemma seen_observe [simp]: "seen (observe t s) = insert s (seen t)"
  by (auto simp: observe_def Let_def)

lemma initialized_observe [simp]: "tracker_inv t \<Longrightarrow> initialized (observe t s)"
  by (auto simp: observe_def Let_def tracker_inv_def)

lemma max_seq_observe:
  "tracker_inv t \<Longrightarrow> max_seq (observe t s) = (if initialized t then max s (max_seq t) else s)"
  using Max_ge [of "seen t" s] 
  by (auto simp: observe_def Let_def tracker_inv_def max_def simp del: Max_less_iff)

lemma received_observe [simp]: "received (observe t s) = received t + 1"
  by (simp add: observe_def Let_def)

lemma tracker_inv_observe: "tracker_inv t \<Longrightarrow> tracker_inv (observe t s)"
  using max_seq_observe [of t s] by (auto simp: tracker_inv_def)

end
