(* ===== verification/Sequence.thy ===== *)
theory Sequence
  imports Host_Protocol
begin

text \<open>
  Per-stream sequence tracking: \<^verbatim>\<open>stream_metric_t\<close> of \<^verbatim>\<open>metrics.h\<close> and \<^verbatim>\<open>sequence_observe\<close> of
  \<^verbatim>\<open>metrics.c\<close>, a 64-packet sliding bitmap, refined to the set of the sequence numbers it has
  registered, and shown equivalent to the host's exact tracker on arrivals that stay inside
  the window.
\<close>

section \<open>The sliding bitmap\<close>

record stream_metric =
  sm_init :: bool
  highest :: u32
  bitmap :: u64
  sm_rx :: u64
  sm_duplicate :: u64
  sm_out_of_order :: u64
  gaps :: u64
  sm_tx_requested :: u64
  sm_tx_submitted :: u64

definition zero_stream :: stream_metric where
  "zero_stream = \<lparr>sm_init = False, highest = 0, bitmap = 0, sm_rx = 0, sm_duplicate = 0,
     sm_out_of_order = 0, gaps = 0, sm_tx_requested = 0, sm_tx_submitted = 0\<rparr>"

definition sequence_observe :: "stream_metric \<Rightarrow> u32 \<Rightarrow> stream_metric" where
  "sequence_observe m sequence =
     (let m = m\<lparr>sm_rx := sm_rx m + 1\<rparr> in
      if \<not> sm_init m then
        m\<lparr>sm_init := True, highest := sequence, bitmap := 1, gaps := ucast sequence\<rparr>
      else if sequence > highest m then
        let distance = sequence - highest m;
            m = (if distance > 1 then m\<lparr>gaps := gaps m + (ucast distance - 1)\<rparr> else m)
        in m\<lparr>bitmap := (if distance \<ge> 64 then 1 else push_bit (unat distance) (bitmap m) OR 1),
             highest := sequence\<rparr>
      else
        let distance = highest m - sequence in
        if distance \<ge> 64 then m\<lparr>sm_out_of_order := sm_out_of_order m + 1\<rparr>
        else
          let b = push_bit (unat distance) 1 in
          if bitmap m AND b \<noteq> 0 then m\<lparr>sm_duplicate := sm_duplicate m + 1\<rparr>
          else
            let m = m\<lparr>bitmap := bitmap m OR b, sm_out_of_order := sm_out_of_order m + 1\<rparr>
            in if gaps m \<noteq> 0 then m\<lparr>gaps := gaps m - 1\<rparr> else m)"

section \<open>The abstract tracker\<close>

text \<open>
  \<open>R\<close> is the set of sequence numbers registered so far. An arrival 64 or more behind the
  maximum is late: the bitmap cannot tell whether it is a duplicate, and it is not registered.
\<close>

definition late :: "u32 set \<Rightarrow> u32 \<Rightarrow> bool" where
  "late R s \<longleftrightarrow> R \<noteq> {} \<and> unat s + 64 \<le> unat (Max R)"

definition register :: "u32 set \<Rightarrow> u32 \<Rightarrow> u32 set" where
  "register R s = (if late R s then R else insert s R)"

definition tracks :: "stream_metric \<Rightarrow> u32 set \<Rightarrow> bool" where
  "tracks m R \<longleftrightarrow>
     (sm_init m \<longleftrightarrow> R \<noteq> {}) \<and>
     (R = {} \<longrightarrow> gaps m = 0) \<and>
     (R \<noteq> {} \<longrightarrow>
        highest m = Max R \<and>
        (\<forall>i<64. bit (bitmap m) i \<longleftrightarrow> (\<exists>x\<in>R. unat x + i = unat (highest m))) \<and>
        unat (gaps m) + card R = unat (highest m) + 1)"

lemma tracks_zero: "tracks zero_stream {}"
  by (simp add: tracks_def zero_stream_def)

lemma unat_diff_less: "(a :: 'a::len word) \<le> b \<Longrightarrow> unat (b - a) = unat b - unat a"
  by (simp add: unat_sub)

lemma finite_word [simp]: "finite (R :: 'a::len word set)"
  by simp

text \<open>At most \<open>h + 1\<close> sequence numbers up to \<open>h\<close>, one fewer when one is missing.\<close>

lemma card_below:
  assumes "\<forall>x\<in>R. x \<le> (h :: u32)"
  shows "card R \<le> unat h + 1"
proof -
  have "unat ` R \<subseteq> {..unat h}" using assms by (auto simp: word_le_nat_alt)
  then have "card (unat ` R) \<le> card {..unat h}" by (intro card_mono) auto
  moreover have "card (unat ` R) = card R" by (rule card_image) (auto simp: inj_on_def dest: unsigned_word_eqI)
  ultimately show ?thesis by simp
qed

lemma card_below_missing:
  assumes "\<forall>x\<in>R. x \<le> (h :: u32)" "s \<le> h" "s \<notin> R"
  shows "card R \<le> unat h"
  using card_below [of "insert s R" h] assms by simp

section \<open>Each branch refines the abstract tracker\<close>

lemma tracks_first:
  assumes "tracks m {}"
  shows "tracks (sequence_observe m s) {s}"
proof -
  have "bit (1 :: u64) i \<longleftrightarrow> i = 0" for i by (simp add: bit_1_iff)
  moreover have "unat (ucast s :: u64) = unat s" by (rule unat_ucast_up) simp
  ultimately show ?thesis
    using assms by (simp add: tracks_def sequence_observe_def Let_def)
qed

lemma tracks_advance:
  assumes t: "tracks m R" and ne: "R \<noteq> {}" and gt: "Max R < s"
  shows "tracks (sequence_observe m s) (insert s R)"
proof -
  let ?d = "s - highest m" and ?m' = "sequence_observe m s"
  from t ne have init: "sm_init m" and h: "highest m = Max R"
    and bits: "\<And>i. i < 64 \<Longrightarrow> bit (bitmap m) i \<longleftrightarrow> (\<exists>x\<in>R. unat x + i = unat (highest m))"
    and g: "unat (gaps m) + card R = unat (highest m) + 1"
    by (auto simp: tracks_def)
  have below: "x \<in> R \<Longrightarrow> unat x \<le> unat (highest m)" for x
    by (simp add: h word_le_nat_alt [symmetric])
  have hs: "unat (highest m) < unat s" using gt h by (simp add: word_less_nat_alt)
  have d: "unat ?d = unat s - unat (highest m)"
    using hs by (simp add: unat_diff_less word_le_nat_alt)
  have s_notin: "s \<notin> R" using below hs by force
  have max: "Max (insert s R) = s" using gt ne by (simp add: max_def not_le [symmetric] del: Max_less_iff)
  have m': "highest ?m' = s" "sm_init ?m'"
    "bitmap ?m' = (if ?d \<ge> 64 then 1 else push_bit (unat ?d) (bitmap m) OR 1)"
    "gaps ?m' = (if ?d > 1 then gaps m + (ucast ?d - 1) else gaps m)"
    using init gt h by (auto simp: sequence_observe_def Let_def)
  have bit': "bit (bitmap ?m') i \<longleftrightarrow> (\<exists>x\<in>insert s R. unat x + i = unat s)" if i: "i < 64" for i
  proof (cases "?d \<ge> 64")
    case True
    then have "64 \<le> unat ?d" by (simp add: word_le_nat_alt)
    with d i show ?thesis by (auto simp: m'(3) True bit_1_iff dest: below)
  next
    case False
    have "bit (bitmap ?m') i \<longleftrightarrow> i = 0 \<or> unat ?d \<le> i \<and> bit (bitmap m) (i - unat ?d)"
      using i by (auto simp: m'(3) False bit_simps)
    also have "\<dots> \<longleftrightarrow> i = 0 \<or> (\<exists>x\<in>R. unat x + i = unat s)"
      using i d hs below bits [of "i - unat ?d"] by fastforce
    finally show ?thesis by auto
  qed
  have u: "unat (ucast ?d :: u64) = unat ?d" by (rule unat_ucast_up) simp
  have gaps': "unat (gaps ?m') + card (insert s R) = unat s + 1"
  proof (cases "?d > 1")
    case True
    then have nz: "(ucast ?d :: u64) \<noteq> 0" using u by (auto simp: word_less_nat_alt)
    have small: "unat s < 2 ^ 32" "unat (highest m) < 2 ^ 32"
      using unsigned_less [of s] unsigned_less [of "highest m"] by simp_all
    have "unat (ucast ?d - 1 :: u64) = unat ?d - 1" using nz u by (simp add: unat_dec)
    moreover have "unat (gaps m) + (unat ?d - 1) < 2 ^ 64" using g d small by simp
    ultimately have "unat (gaps ?m') = unat (gaps m) + (unat ?d - 1)"
      using True by (simp add: m'(4) unat_word_ariths)
    then show ?thesis using g d hs s_notin True by (simp add: word_less_nat_alt)
  next
    case False
    then have "unat s = unat (highest m) + 1" using d hs by (simp add: word_less_nat_alt)
    then show ?thesis using g s_notin False by (simp add: m'(4))
  qed
  show ?thesis
    unfolding tracks_def using m'(1,2) max bit' gaps' by simp
qed

lemma tracks_behind:
  assumes t: "tracks m R" and ne: "R \<noteq> {}" and le: "s \<le> Max R"
  shows "tracks (sequence_observe m s) (register R s)"
    "sm_duplicate (sequence_observe m s) = sm_duplicate m + of_bool (\<not> late R s \<and> s \<in> R)"
    "sm_out_of_order (sequence_observe m s) = sm_out_of_order m + of_bool (late R s \<or> s \<notin> R)"
proof -
  let ?d = "highest m - s" and ?m' = "sequence_observe m s"
  from t ne have init: "sm_init m" and h: "highest m = Max R"
    and bits: "\<And>i. i < 64 \<Longrightarrow> bit (bitmap m) i \<longleftrightarrow> (\<exists>x\<in>R. unat x + i = unat (highest m))"
    and g: "unat (gaps m) + card R = unat (highest m) + 1"
    by (auto simp: tracks_def)
  have hs: "unat s \<le> unat (highest m)" using le h by (simp add: word_le_nat_alt)
  have d: "unat ?d = unat (highest m) - unat s"
    using hs by (simp add: unat_diff_less word_le_nat_alt)
  have late: "late R s \<longleftrightarrow> ?d \<ge> 64"
    using d hs ne h by (auto simp: late_def word_le_nat_alt)
  have not_gt: "\<not> s > highest m" using le h by simp
  have dup: "bitmap m AND push_bit (unat ?d) 1 = 0 \<longleftrightarrow> s \<notin> R" if "\<not> late R s"
  proof -
    have "unat ?d < 64" using that late by (simp add: word_le_nat_alt not_le)
    then have "bit (bitmap m) (unat ?d) \<longleftrightarrow> (\<exists>x\<in>R. unat x + unat ?d = unat (highest m))"
      by (rule bits)
    also have "\<dots> \<longleftrightarrow> (\<exists>x\<in>R. unat x = unat s)"
      using d hs by (intro bex_cong refl) linarith
    also have "\<dots> \<longleftrightarrow> s \<in> R" by (auto dest: unsigned_word_eqI)
    finally show ?thesis using \<open>unat ?d < 64\<close> and_mask_bit_eq_0 [of "unat ?d" "bitmap m"] by simp
  qed
  have nochange: "tracks (m\<lparr>sm_rx := a, sm_duplicate := b, sm_out_of_order := c\<rparr>) R" for a b c
    using t by (simp add: tracks_def)
  have new: "tracks (m\<lparr>sm_rx := a, bitmap := bitmap m OR push_bit (unat ?d) 1,
      sm_out_of_order := c, gaps := gaps m - 1\<rparr>) (insert s R)" "gaps m \<noteq> 0"
    if nl: "\<not> late R s" and nin: "s \<notin> R" for a c
  proof -
    have d64: "unat ?d < 64" using nl late by (simp add: word_le_nat_alt not_le)
    have "card R \<le> unat (highest m)"
      using nin le h by (intro card_below_missing [of R _ s]) auto
    with g have gpos: "unat (gaps m) \<ge> 1" by linarith
    then show "gaps m \<noteq> 0" by auto
    then have "unat (gaps m - 1) = unat (gaps m) - 1" by (rule unat_dec)
    moreover have "Max (insert s R) = highest m" using h le ne by (simp add: max_absorb2)
    moreover have "bit (bitmap m OR push_bit (unat ?d) 1) i \<longleftrightarrow>
        (\<exists>x\<in>insert s R. unat x + i = unat (highest m))" if "i < 64" for i
      using bits [OF that] that d hs by (auto simp: bit_or_iff bit_exp_iff)
    ultimately show "tracks (m\<lparr>sm_rx := a, bitmap := bitmap m OR push_bit (unat ?d) 1,
        sm_out_of_order := c, gaps := gaps m - 1\<rparr>) (insert s R)"
      using init g gpos nin by (simp add: tracks_def)
  qed
  show "tracks ?m' (register R s)"
    using init not_gt late dup new
      nochange [where a = "sm_rx m + 1" and b = "sm_duplicate m" and c = "sm_out_of_order m + 1"]
      nochange [where a = "sm_rx m + 1" and b = "sm_duplicate m + 1" and c = "sm_out_of_order m"]
    by (auto simp: sequence_observe_def Let_def register_def insert_absorb)
  show "sm_duplicate ?m' = sm_duplicate m + of_bool (\<not> late R s \<and> s \<in> R)"
    "sm_out_of_order ?m' = sm_out_of_order m + of_bool (late R s \<or> s \<notin> R)"
    using init not_gt late dup by (auto simp: sequence_observe_def Let_def)
qed

lemma tracks_sequence_observe:
  "tracks m R \<Longrightarrow> tracks (sequence_observe m s) (register R s)"
  using tracks_first [of m s] tracks_advance [of m R s] tracks_behind(1) [of m R s]
  by (cases "R = {}"; cases "Max R < s") (auto simp: register_def late_def word_less_nat_alt word_le_nat_alt not_less)

lemma sm_rx_sequence_observe [simp]: "sm_rx (sequence_observe m s) = sm_rx m + 1"
  by (simp add: sequence_observe_def Let_def)

section \<open>A loss tracker\<close>

text \<open>
  The contract both trackers satisfy. \<open>rel m R\<close> says that the state \<open>m\<close> has registered \<open>R\<close>.
  Arrivals that are not late are counted exactly: every one is received, a repeated one is a
  duplicate, a new one below the maximum is out of order, and the missing count is the size of
  the range \<open>0..Max R\<close> less the number registered.
\<close>

definition missing_of :: "u32 set \<Rightarrow> u64" where
  "missing_of R = (if R = {} then 0 else of_nat (unat (Max R) + 1 - card R))"

locale loss_tracker =
  fixes m0 :: 'm
    and step :: "'m \<Rightarrow> u32 \<Rightarrow> 'm"
    and rx dup ooo miss :: "'m \<Rightarrow> u64"
    and rel :: "'m \<Rightarrow> u32 set \<Rightarrow> bool"
  assumes rel0: "rel m0 {}"
    and counts0: "rx m0 = 0" "dup m0 = 0" "ooo m0 = 0"
    and rel_step: "rel m R \<Longrightarrow> \<not> late R s \<Longrightarrow> rel (step m s) (insert s R)"
    and rx_step: "rx (step m s) = rx m + 1"
    and dup_step: "rel m R \<Longrightarrow> \<not> late R s \<Longrightarrow> dup (step m s) = dup m + of_bool (s \<in> R)"
    and ooo_step: "rel m R \<Longrightarrow> \<not> late R s \<Longrightarrow>
      ooo (step m s) = ooo m + of_bool (s \<notin> R \<and> R \<noteq> {} \<and> s < Max R)"
    and miss_rel: "rel m R \<Longrightarrow> miss m = missing_of R"

text \<open>\<open>in_window R xs\<close>: no arrival of \<open>xs\<close> is late, when \<open>R\<close> was registered before.\<close>

fun in_window :: "u32 set \<Rightarrow> u32 list \<Rightarrow> bool" where
  "in_window R [] \<longleftrightarrow> True"
| "in_window R (s # xs) \<longleftrightarrow> \<not> late R s \<and> in_window (insert s R) xs"

text \<open>The number of arrivals that are new and below the maximum when they come.\<close>

fun reordered :: "u32 set \<Rightarrow> u32 list \<Rightarrow> nat" where
  "reordered R [] = 0"
| "reordered R (s # xs) =
     of_bool (s \<notin> R \<and> R \<noteq> {} \<and> s < Max R) + reordered (insert s R) xs"

context loss_tracker begin

lemma rx_fold: "rx (foldl step m xs) = rx m + of_nat (length xs)"
  by (induction xs arbitrary: m) (simp_all add: rx_step)

lemma rel_fold: "rel m R \<Longrightarrow> in_window R xs \<Longrightarrow> rel (foldl step m xs) (R \<union> set xs)"
proof (induction xs arbitrary: m R)
  case (Cons s xs)
  then show ?case using rel_step [of m R s] Cons.IH [of "step m s" "insert s R"] by simp
qed simp

lemma dup_fold:
  "rel m R \<Longrightarrow> in_window R xs \<Longrightarrow>
     dup (foldl step m xs) + of_nat (card (R \<union> set xs)) = dup m + of_nat (length xs + card R)"
proof (induction xs arbitrary: m R)
  case (Cons s xs)
  then have "rel (step m s) (insert s R)" "in_window (insert s R) xs"
    "dup (step m s) = dup m + of_bool (s \<in> R)"
    using rel_step dup_step by auto
  then show ?case
    using Cons.IH [of "step m s" "insert s R"]
    by (cases "s \<in> R") (simp_all add: insert_absorb)
qed simp

lemma ooo_fold:
  "rel m R \<Longrightarrow> in_window R xs \<Longrightarrow>
     ooo (foldl step m xs) = ooo m + of_nat (reordered R xs)"
proof (induction xs arbitrary: m R)
  case (Cons s xs)
  then show ?case
    using rel_step [of m R s] ooo_step [of m R s] Cons.IH [of "step m s" "insert s R"] by simp
qed simp

text \<open>The run from the initial state.\<close>

lemma run_counts:
  assumes "in_window {} xs"
  shows "rx (foldl step m0 xs) = of_nat (length xs)"
    "dup (foldl step m0 xs) = of_nat (length xs - card (set xs))"
    "ooo (foldl step m0 xs) = of_nat (reordered {} xs)"
    "miss (foldl step m0 xs) = missing_of (set xs)"
proof -
  show "rx (foldl step m0 xs) = of_nat (length xs)" by (simp add: rx_fold counts0)
  have "dup (foldl step m0 xs) + of_nat (card (set xs)) = of_nat (length xs)"
    using dup_fold [OF rel0 assms] by (simp add: counts0)
  then show "dup (foldl step m0 xs) = of_nat (length xs - card (set xs))"
    by (simp add: card_length eq_diff_eq)
  show "ooo (foldl step m0 xs) = of_nat (reordered {} xs)"
    using ooo_fold [OF rel0 assms] by (simp add: counts0)
  show "miss (foldl step m0 xs) = missing_of (set xs)"
    using miss_rel [OF rel_fold [OF rel0 assms]] by simp
qed

end

section \<open>The firmware's bitmap and the host's set are loss trackers\<close>

lemma dup_sequence_observe:
  assumes "tracks m R" "\<not> late R s"
  shows "sm_duplicate (sequence_observe m s) = sm_duplicate m + of_bool (s \<in> R)"
proof (cases "R = {} \<or> Max R < s")
  case True
  then have "s \<notin> R" by (metis Max_ge empty_iff finite_word leD)
  moreover from True assms have "sm_duplicate (sequence_observe m s) = sm_duplicate m"
    by (auto simp: sequence_observe_def Let_def tracks_def simp del: Max_less_iff)
  ultimately show ?thesis by simp
next
  case False
  then show ?thesis using tracks_behind(2) [OF assms(1)] assms(2) by (simp add: not_less)
qed

lemma ooo_sequence_observe:
  assumes "tracks m R" "\<not> late R s"
  shows "sm_out_of_order (sequence_observe m s) =
    sm_out_of_order m + of_bool (s \<notin> R \<and> R \<noteq> {} \<and> s < Max R)"
proof (cases "R = {} \<or> Max R < s")
  case True
  with assms have "sm_out_of_order (sequence_observe m s) = sm_out_of_order m"
    by (auto simp: sequence_observe_def Let_def tracks_def simp del: Max_less_iff)
  then show ?thesis using True by auto
next
  case False
  then have "s \<le> Max R" "R \<noteq> {}" by auto
  moreover have "s \<notin> R \<Longrightarrow> s \<noteq> Max R" using Max_in [OF finite_word \<open>R \<noteq> {}\<close>] by auto
  ultimately show ?thesis using tracks_behind(3) [OF assms(1)] assms(2)
    by (auto simp: order_less_le)
qed

lemma tracks_gaps: "tracks m R \<Longrightarrow> gaps m = missing_of R"
proof (cases "R = {}")
  case False
  assume "tracks m R"
  with False have "unat (gaps m) + card R = unat (Max R) + 1" by (simp add: tracks_def)
  then have "unat (gaps m) = unat (Max R) + 1 - card R" by linarith
  then show ?thesis using False by (simp add: missing_of_def word_eq_of_natI)
qed (simp add: tracks_def missing_of_def)

interpretation bitmap_tracker: loss_tracker zero_stream sequence_observe sm_rx sm_duplicate
  sm_out_of_order gaps tracks
proof unfold_locales
  fix m R s
  show "tracks m R \<Longrightarrow> \<not> late R s \<Longrightarrow> tracks (sequence_observe m s) (insert s R)"
    using tracks_sequence_observe [of m R s] by (simp add: register_def)
  show "tracks zero_stream {}" by (rule tracks_zero)
qed (auto simp: zero_stream_def dup_sequence_observe ooo_sequence_observe intro: tracks_gaps)

lemma estimated_missing_missing_of:
  assumes "tracker_inv t"
  shows "estimated_missing t = missing_of (seen t)"
proof (cases "seen t = {}")
  case True
  then show ?thesis using assms
    by (simp add: estimated_missing_def missing_of_def tracker_inv_def)
next
  case False
  let ?a = "ucast (max_seq t) + 1 :: u64" and ?b = "of_nat (card (seen t)) :: u64"
  have m: "max_seq t = Max (seen t)" "initialized t" using assms False by (auto simp: tracker_inv_def)
  have le: "card (seen t) \<le> unat (max_seq t) + 1"
    by (rule card_below) (simp add: m)
  have "unat (max_seq t) < 2 ^ 32" using unsigned_less [of "max_seq t"] by simp
  moreover have "unat (ucast (max_seq t) :: u64) = unat (max_seq t)" by (rule unat_ucast_up) simp
  ultimately have a: "unat ?a = unat (max_seq t) + 1" by (simp add: unat_inc)
  then have "of_nat (unat (max_seq t) + 1) = ?a" by (rule word_eq_of_natI [symmetric])
  moreover have "unat ?b = card (seen t)"
    using le \<open>unat (max_seq t) < 2 ^ 32\<close> by (simp add: unat_of_nat)
  then have "\<not> ?a < ?b" using a le by (simp add: word_less_nat_alt)
  ultimately show ?thesis
    using le False by (simp add: estimated_missing_def missing_of_def m(2) m(1) [symmetric])
qed

interpretation exact_tracker: loss_tracker default_tracker observe received st_duplicate
  st_out_of_order estimated_missing "\<lambda>t R. tracker_inv t \<and> seen t = R"
proof unfold_locales
  show "tracker_inv default_tracker \<and> seen default_tracker = {}"
    using tracker_inv_default by (simp add: default_tracker_def)
next
  fix t R s assume t: "tracker_inv t \<and> seen t = R"
  show "st_duplicate (observe t s) = st_duplicate t + of_bool (s \<in> R)"
    using t by (auto simp: observe_def Let_def)
  show "st_out_of_order (observe t s) =
      st_out_of_order t + of_bool (s \<notin> R \<and> R \<noteq> {} \<and> s < Max R)"
    using t by (auto simp: observe_def Let_def tracker_inv_def simp del: Max_less_iff)
  show "estimated_missing t = missing_of R"
    using t estimated_missing_missing_of by simp
qed (auto simp: tracker_inv_observe default_tracker_def)

text \<open>The exact tracker needs no window: nothing is ever late for it.\<close>

end
