(* ===== verification/Distribution.thy ===== *)
theory Distribution
  imports Prelude "HOL-Library.Multiset"
begin

text \<open>
  The bounded sample reservoir of \<^verbatim>\<open>metrics.c\<close>: \<^verbatim>\<open>distribution_reset\<close>, \<^verbatim>\<open>sample_hash\<close> and
  \<^verbatim>\<open>distribution_add\<close>. Count, sum, extrema and sum of squares are accumulated over all samples,
  the reservoir keeps 8192 of them.

  The sum of squares is a \<^verbatim>\<open>long double\<close> in the code. It only ever holds sums of squares of
  32-bit integers, so it is kept as the exact natural number; \<open>dist_sum_sq_bound\<close> bounds it, and
  below \<open>2 ^ 49\<close> samples it stays under \<open>2 ^ 113\<close>, the range in which the 113-bit significand of
  the RISC-V \<^verbatim>\<open>long double\<close> is exact.
\<close>

definition METRIC_SAMPLE_CAPACITY :: nat where "METRIC_SAMPLE_CAPACITY = 8192"
definition UINT32_MAX :: u64 where "UINT32_MAX = 0xffffffff"

record sample_distribution =
  samples :: "u32 list"
  reservoir_count :: u32
  sample_count :: u64
  d_sum :: u64
  sum_sq :: nat
  d_min :: u32
  d_max :: u32

definition distribution_reset :: sample_distribution where
  "distribution_reset = \<lparr>samples = replicate METRIC_SAMPLE_CAPACITY 0, reservoir_count = 0,
     sample_count = 0, d_sum = 0, sum_sq = 0, d_min = ucast UINT32_MAX, d_max = 0\<rparr>"

definition sample_hash :: "u64 \<Rightarrow> u64" where
  "sample_hash value =
     (let value = value XOR drop_bit 30 value;
          value = value * 0xbf58476d1ce4e5b9;
          value = value XOR drop_bit 27 value;
          value = value * 0x94d049bb133111eb
      in value XOR drop_bit 31 value)"

text \<open>\<^verbatim>\<open>value > UINT32_MAX ? UINT32_MAX : (uint32_t)value\<close>\<close>

definition bound_u32 :: "u64 \<Rightarrow> u32" where
  "bound_u32 value = (if value > UINT32_MAX then ucast UINT32_MAX else ucast value)"

definition distribution_add :: "sample_distribution \<Rightarrow> u64 \<Rightarrow> sample_distribution" where
  "distribution_add d value =
     (let bounded = bound_u32 value;
          d = d\<lparr>sample_count := sample_count d + 1\<rparr>;
          d = d\<lparr>d_sum := d_sum d + ucast bounded\<rparr>;
          d = d\<lparr>sum_sq := sum_sq d + unat bounded * unat bounded\<rparr>;
          d = (if bounded < d_min d then d\<lparr>d_min := bounded\<rparr> else d);
          d = (if bounded > d_max d then d\<lparr>d_max := bounded\<rparr> else d)
      in if unat (reservoir_count d) < METRIC_SAMPLE_CAPACITY
         then d\<lparr>samples := (samples d)[unat (reservoir_count d) := bounded],
                reservoir_count := reservoir_count d + 1\<rparr>
         else let slot = sample_hash (sample_count d) mod sample_count d in
              if unat slot < METRIC_SAMPLE_CAPACITY
              then d\<lparr>samples := (samples d)[unat slot := bounded]\<rparr> else d)"

section \<open>Saturation\<close>

lemma unat_bound_u32: "unat (bound_u32 v) = min (unat v) (2 ^ 32 - 1)"
proof (cases "v > UINT32_MAX")
  case True
  then have "unat UINT32_MAX < unat v" by (simp add: word_less_nat_alt)
  then show ?thesis using True by (simp add: bound_u32_def UINT32_MAX_def)
next
  case False
  then have "unat v \<le> 2 ^ 32 - 1" by (simp add: UINT32_MAX_def word_le_nat_alt not_less)
  moreover from this have "unat (ucast v :: u32) = unat v"
    by (simp add: unsigned_ucast_eq take_bit_nat_eq_self)
  ultimately show ?thesis using False by (simp add: bound_u32_def)
qed

lemma bound_u32_ucast [simp]: "bound_u32 (ucast (w :: u32)) = w"
proof -
  have "unat (ucast w :: u64) = unat w" by (rule unat_ucast_up) simp
  then have "unat (bound_u32 (ucast w)) = unat w" by (simp add: unat_bound_u32 min_absorb1 unat_u32_le)
  then show ?thesis by (rule unsigned_word_eqI)
qed

section \<open>The reservoir invariant\<close>

text \<open>
  \<open>reservoir d\<close> is the part of the array in use. \<open>dist_rel d xs\<close> relates the distribution to the
  list \<open>xs\<close> of the (bounded) samples it was given.
\<close>

definition reservoir :: "sample_distribution \<Rightarrow> u32 list" where
  "reservoir d = take (unat (reservoir_count d)) (samples d)"

definition dist_rel :: "sample_distribution \<Rightarrow> u32 list \<Rightarrow> bool" where
  "dist_rel d xs \<longleftrightarrow>
     length (samples d) = METRIC_SAMPLE_CAPACITY \<and>
     unat (reservoir_count d) = min (length xs) METRIC_SAMPLE_CAPACITY \<and>
     sample_count d = of_nat (length xs) \<and>
     d_sum d = of_nat (\<Sum>x\<leftarrow>xs. unat x) \<and>
     sum_sq d = (\<Sum>x\<leftarrow>xs. unat x * unat x) \<and>
     d_min d = (if xs = [] then ucast UINT32_MAX else Min (set xs)) \<and>
     d_max d = (if xs = [] then 0 else Max (set xs)) \<and>
     set (reservoir d) \<subseteq> set xs \<and>
     (length xs \<le> METRIC_SAMPLE_CAPACITY \<longrightarrow> reservoir d = xs)"

lemma dist_rel_reset: "dist_rel distribution_reset []"
  by (simp add: dist_rel_def distribution_reset_def reservoir_def)

text \<open>The fields of an updated distribution.\<close>

lemma distribution_add_fields:
  "sample_count (distribution_add d v) = sample_count d + 1"
  "d_sum (distribution_add d v) = d_sum d + ucast (bound_u32 v)"
  "sum_sq (distribution_add d v) = sum_sq d + unat (bound_u32 v) * unat (bound_u32 v)"
  "d_min (distribution_add d v) = min (bound_u32 v) (d_min d)"
  "d_max (distribution_add d v) = max (bound_u32 v) (d_max d)"
  "length (samples (distribution_add d v)) = length (samples d)"
  by (auto simp: distribution_add_def Let_def min_def max_def)

lemma le_uint32_max: "(w :: u32) \<le> ucast UINT32_MAX"
  by (simp add: UINT32_MAX_def word_le_nat_alt unat_u32_le)

lemma distribution_add_not_full:
  assumes "unat (reservoir_count d) < METRIC_SAMPLE_CAPACITY"
    "length (samples d) = METRIC_SAMPLE_CAPACITY"
  shows "unat (reservoir_count (distribution_add d v)) = unat (reservoir_count d) + 1"
    "reservoir (distribution_add d v) = reservoir d @ [bound_u32 v]"
proof -
  have "unat (reservoir_count d + 1) = unat (reservoir_count d) + 1"
    using assms(1) by (intro unat_inc) (simp add: METRIC_SAMPLE_CAPACITY_def)
  moreover have "reservoir_count (distribution_add d v) = reservoir_count d + 1"
    "samples (distribution_add d v) = (samples d)[unat (reservoir_count d) := bound_u32 v]"
    using assms(1) by (auto simp: distribution_add_def Let_def)
  ultimately show "unat (reservoir_count (distribution_add d v)) = unat (reservoir_count d) + 1"
    "reservoir (distribution_add d v) = reservoir d @ [bound_u32 v]"
    using assms by (simp_all add: reservoir_def take_Suc_conv_app_nth take_update_cancel)
qed

lemma distribution_add_full:
  assumes "\<not> unat (reservoir_count d) < METRIC_SAMPLE_CAPACITY"
  shows "reservoir_count (distribution_add d v) = reservoir_count d"
    "set (reservoir (distribution_add d v)) \<subseteq> insert (bound_u32 v) (set (reservoir d))"
proof -
  show c: "reservoir_count (distribution_add d v) = reservoir_count d"
    using assms by (auto simp: distribution_add_def Let_def)
  have "samples (distribution_add d v) = samples d \<or>
    (\<exists>i. samples (distribution_add d v) = (samples d)[i := bound_u32 v])"
    using assms by (auto simp: distribution_add_def Let_def)
  then show "set (reservoir (distribution_add d v)) \<subseteq> insert (bound_u32 v) (set (reservoir d))"
    by (auto simp: reservoir_def c take_update_swap dest: subsetD [OF set_update_subset_insert])
qed

lemma dist_rel_add:
  assumes r: "dist_rel d xs"
  shows "dist_rel (distribution_add d v) (xs @ [bound_u32 v])"
proof -
  let ?d' = "distribution_add d v"
  from r have len: "length (samples d) = METRIC_SAMPLE_CAPACITY"
    and rc: "unat (reservoir_count d) = min (length xs) METRIC_SAMPLE_CAPACITY"
    and sub: "set (reservoir d) \<subseteq> set xs"
    and ex: "length xs \<le> METRIC_SAMPLE_CAPACITY \<Longrightarrow> reservoir d = xs"
    by (auto simp: dist_rel_def)
  have stats: "sample_count ?d' = of_nat (length (xs @ [bound_u32 v]))"
    "d_sum ?d' = of_nat (\<Sum>x\<leftarrow>xs @ [bound_u32 v]. unat x)"
    "sum_sq ?d' = (\<Sum>x\<leftarrow>xs @ [bound_u32 v]. unat x * unat x)"
    using r by (simp_all add: distribution_add_fields dist_rel_def)
  have extrema: "d_min ?d' = Min (set (xs @ [bound_u32 v]))" "d_max ?d' = Max (set (xs @ [bound_u32 v]))"
    using r by (auto simp: distribution_add_fields dist_rel_def le_uint32_max min_absorb1)
  show ?thesis
  proof (cases "unat (reservoir_count d) < METRIC_SAMPLE_CAPACITY")
    case True
    then have lt: "length xs < METRIC_SAMPLE_CAPACITY" using rc by simp
    show ?thesis
      unfolding dist_rel_def
      using stats extrema len rc sub ex lt True
      by (auto simp: distribution_add_fields distribution_add_not_full)
  next
    case False
    then have ge: "\<not> length xs < METRIC_SAMPLE_CAPACITY" using rc by simp
    show ?thesis
      unfolding dist_rel_def
      using stats extrema len rc sub ge distribution_add_full [OF False, of v]
      by (auto simp: distribution_add_fields)
  qed
qed

text \<open>A whole sequence of samples.\<close>

lemma dist_rel_fold:
  "dist_rel d xs \<Longrightarrow> dist_rel (foldl distribution_add d vs) (xs @ map bound_u32 vs)"
proof (induction vs arbitrary: d xs)
  case (Cons v vs)
  then show ?case using Cons.IH [OF dist_rel_add] by simp
qed simp

lemma sum_list_unat_bound: "(\<Sum>x\<leftarrow>(xs :: u32 list). unat x) \<le> length xs * (2 ^ 32 - 1)"
proof (induction xs)
  case (Cons x xs)
  then show ?case by (simp add: add_mono unat_u32_le)
qed simp

lemma dist_sum_sq_bound: "dist_rel d xs \<Longrightarrow> sum_sq d \<le> length xs * (2 ^ 32 - 1) ^ 2"
proof -
  assume "dist_rel d xs"
  then have "sum_sq d = (\<Sum>x\<leftarrow>xs. unat x * unat x)" by (simp add: dist_rel_def)
  also have "\<dots> \<le> length xs * (2 ^ 32 - 1) ^ 2"
  proof (induction xs)
    case (Cons x xs)
    have "unat x * unat x \<le> (2 ^ 32 - 1) ^ 2"
      unfolding power2_eq_square by (intro mult_le_mono) (simp_all add: unat_u32_le)
    with Cons show ?case by simp
  qed simp
  finally show ?thesis .
qed

end
