(* ===== verification/Metrics.thy ===== *)
theory Metrics
  imports Sequence Distribution
begin

text \<open>
  The measurement store \<^verbatim>\<open>metrics_t g_metrics\<close> of \<^verbatim>\<open>metrics.c\<close> and every operation that updates
  it. An operation takes the store and returns the new one. Counters are words, so \<^verbatim>\<open>+\<close> wraps
  as in the code; the \<^verbatim>\<open>int8_t\<close> RSSI values are \<^verbatim>\<open>u8\<close> words read with \<^verbatim>\<open>sint\<close>, the
  \<^verbatim>\<open>int64_t\<close> RSSI sum is a \<^verbatim>\<open>u64\<close> word read with \<^verbatim>\<open>sint\<close>.
\<close>

section \<open>The store\<close>

record metric_totals =
  t_tx_requested :: u64
  t_tx_submitted :: u64
  t_tx_bytes :: u64
  t_send_cb_success :: u64
  t_send_cb_failure :: u64
  t_send_api_failure :: u64
  t_tx_slot_timeout :: u64
  t_rx_packets :: u64
  t_rx_bytes :: u64
  t_duplicate :: u64
  t_out_of_order :: u64
  t_estimated_loss :: u64
  t_stale :: u64
  t_invalid :: u64
  t_queue_drops :: u64

record metrics =
  totals :: metric_totals
  m_streams :: "stream_metric list"
  start_us :: u64
  end_us :: u64
  first_tx_us :: u64
  last_tx_us :: u64
  first_rx_us :: u64
  last_rx_us :: u64
  rssi_sum :: u64
  rssi_count :: u64
  rssi_min :: u8
  rssi_max :: u8
  rssi_hist :: "u32 list"
  rtt :: sample_distribution
  dispatch_lateness :: sample_distribution
  last_rtt :: u32
  jitter_max :: u32
  jitter_sum :: u64
  jitter_count :: u64

definition zero_totals :: metric_totals where
  "zero_totals = \<lparr>t_tx_requested = 0, t_tx_submitted = 0, t_tx_bytes = 0, t_send_cb_success = 0,
     t_send_cb_failure = 0, t_send_api_failure = 0, t_tx_slot_timeout = 0, t_rx_packets = 0,
     t_rx_bytes = 0, t_duplicate = 0, t_out_of_order = 0, t_estimated_loss = 0, t_stale = 0,
     t_invalid = 0, t_queue_drops = 0\<rparr>"

text \<open>\<^verbatim>\<open>memset(&g_metrics, 0, ...)\<close>, then the extrema and the two distributions.\<close>

definition metrics_reset :: metrics where
  "metrics_reset = \<lparr>totals = zero_totals, m_streams = replicate HARNESS_MAX_STREAMS zero_stream,
     start_us = 0, end_us = 0, first_tx_us = 0, last_tx_us = 0, first_rx_us = 0, last_rx_us = 0,
     rssi_sum = 0, rssi_count = 0, rssi_min = 127, rssi_max = - 127, rssi_hist = replicate 128 0,
     rtt = distribution_reset, dispatch_lateness = distribution_reset, last_rtt = 0,
     jitter_max = 0, jitter_sum = 0, jitter_count = 0\<rparr>"

section \<open>Transmission counters\<close>

text \<open>Update of one stream's entry.\<close>

definition upd_stream :: "nat \<Rightarrow> (stream_metric \<Rightarrow> stream_metric) \<Rightarrow> metrics \<Rightarrow> metrics" where
  "upd_stream i f m = m\<lparr>m_streams := (m_streams m)[i := f (m_streams m ! i)]\<rparr>"

definition metrics_tx_requested :: "u16 \<Rightarrow> metrics \<Rightarrow> metrics" where
  "metrics_tx_requested stream m =
     (let m = m\<lparr>totals := (totals m)\<lparr>t_tx_requested := t_tx_requested (totals m) + 1\<rparr>\<rparr>
      in if unat stream < HARNESS_MAX_STREAMS
         then upd_stream (unat stream) (\<lambda>s. s\<lparr>sm_tx_requested := sm_tx_requested s + 1\<rparr>) m
         else m)"

definition metrics_tx_submitted :: "u16 \<Rightarrow> u16 \<Rightarrow> u64 \<Rightarrow> metrics \<Rightarrow> metrics" where
  "metrics_tx_submitted stream len dispatch_us m =
     (let m = m\<lparr>totals := (totals m)\<lparr>t_tx_submitted := t_tx_submitted (totals m) + 1\<rparr>\<rparr>;
          m = m\<lparr>totals := (totals m)\<lparr>t_tx_bytes := t_tx_bytes (totals m) + ucast len\<rparr>\<rparr>;
          m = (if unat stream < HARNESS_MAX_STREAMS
               then upd_stream (unat stream) (\<lambda>s. s\<lparr>sm_tx_submitted := sm_tx_submitted s + 1\<rparr>) m
               else m);
          m = (if first_tx_us m = 0 then m\<lparr>first_tx_us := dispatch_us\<rparr> else m)
      in m\<lparr>last_tx_us := dispatch_us\<rparr>)"

definition metrics_tx_api_failure :: "metrics \<Rightarrow> metrics" where
  "metrics_tx_api_failure m =
     m\<lparr>totals := (totals m)\<lparr>t_send_api_failure := t_send_api_failure (totals m) + 1\<rparr>\<rparr>"

definition metrics_tx_slot_timeout :: "metrics \<Rightarrow> metrics" where
  "metrics_tx_slot_timeout m =
     m\<lparr>totals := (totals m)\<lparr>t_tx_slot_timeout := t_tx_slot_timeout (totals m) + 1\<rparr>\<rparr>"

definition metrics_tx_complete :: "bool \<Rightarrow> metrics \<Rightarrow> metrics" where
  "metrics_tx_complete success m =
     (if success
      then m\<lparr>totals := (totals m)\<lparr>t_send_cb_success := t_send_cb_success (totals m) + 1\<rparr>\<rparr>
      else m\<lparr>totals := (totals m)\<lparr>t_send_cb_failure := t_send_cb_failure (totals m) + 1\<rparr>\<rparr>)"

definition metrics_dispatch_lateness :: "u64 \<Rightarrow> u64 \<Rightarrow> metrics \<Rightarrow> metrics" where
  "metrics_dispatch_lateness actual_dispatch_us scheduled_deadline_us m =
     (let lateness = (if actual_dispatch_us > scheduled_deadline_us
                      then actual_dispatch_us - scheduled_deadline_us else 0)
      in m\<lparr>dispatch_lateness := distribution_add (dispatch_lateness m) lateness\<rparr>)"

text \<open>\<^verbatim>\<open>__atomic_fetch_add(&g_metrics.totals.queue_drops, 1, ...)\<close> of \<^verbatim>\<open>receiver.c\<close>.\<close>

definition metrics_queue_drop :: "metrics \<Rightarrow> metrics" where
  "metrics_queue_drop m =
     m\<lparr>totals := (totals m)\<lparr>t_queue_drops := t_queue_drops (totals m) + 1\<rparr>\<rparr>"

definition metrics_drop :: "bool \<Rightarrow> bool \<Rightarrow> metrics \<Rightarrow> metrics" where
  "metrics_drop stale invalid m =
     (let m = (if stale then m\<lparr>totals := (totals m)\<lparr>t_stale := t_stale (totals m) + 1\<rparr>\<rparr> else m)
      in if invalid then m\<lparr>totals := (totals m)\<lparr>t_invalid := t_invalid (totals m) + 1\<rparr>\<rparr> else m)"

section \<open>Reception\<close>

text \<open>\<^verbatim>\<open>int index = rssi + 127\<close>, clamped to \<open>0..127\<close>.\<close>

definition rssi_index :: "u8 \<Rightarrow> nat" where
  "rssi_index rssi =
     (let index = sint rssi + 127;
          index = (if index < 0 then 0 else index);
          index = (if index > 127 then 127 else index)
      in nat index)"

text \<open>The echo part of \<^verbatim>\<open>metrics_rx\<close>: one round-trip sample and the jitter against the last.\<close>

definition rtt_observe :: "u64 \<Rightarrow> metrics \<Rightarrow> metrics" where
  "rtt_observe rtt_us m =
     (let bounded_rtt = bound_u32 rtt_us;
          m = (if sample_count (rtt m) \<noteq> 0 then
                 let jitter = (if bounded_rtt > last_rtt m then bounded_rtt - last_rtt m
                               else last_rtt m - bounded_rtt);
                     m = m\<lparr>jitter_sum := jitter_sum m + ucast jitter\<rparr>;
                     m = m\<lparr>jitter_count := jitter_count m + 1\<rparr>
                 in if jitter > jitter_max m then m\<lparr>jitter_max := jitter\<rparr> else m
               else m);
          m = m\<lparr>last_rtt := bounded_rtt\<rparr>
      in m\<lparr>rtt := distribution_add (rtt m) (ucast bounded_rtt)\<rparr>)"

text \<open>
  \<^verbatim>\<open>metrics_rx\<close> in its four blocks: the packet totals and time stamps, the sequence tracking of
  the frame's stream, the RSSI statistics, and the echo sample.
\<close>

definition rx_count :: "bench_header \<Rightarrow> u64 \<Rightarrow> metrics \<Rightarrow> metrics" where
  "rx_count header now_us m =
     (let m = (if t_rx_packets (totals m) = 0 then m\<lparr>first_rx_us := now_us\<rparr> else m);
          m = m\<lparr>last_rx_us := now_us\<rparr>;
          t = totals m
      in m\<lparr>totals := t\<lparr>t_rx_packets := t_rx_packets t + 1,
                         t_rx_bytes := t_rx_bytes t + ucast (h_packet_len header)\<rparr>\<rparr>)"

definition rx_sequence :: "bench_header \<Rightarrow> metrics \<Rightarrow> metrics" where
  "rx_sequence header m =
     (let i = unat (h_stream_id header);
          old_out_of_order = sm_out_of_order (m_streams m ! i);
          old_duplicate = sm_duplicate (m_streams m ! i);
          m = upd_stream i (\<lambda>s. sequence_observe s (h_seq header)) m;
          t = totals m
      in m\<lparr>totals := t\<lparr>t_out_of_order := t_out_of_order t +
                           (sm_out_of_order (m_streams m ! i) - old_out_of_order),
                         t_duplicate := t_duplicate t +
                           (sm_duplicate (m_streams m ! i) - old_duplicate)\<rparr>\<rparr>)"

definition rx_rssi :: "u8 \<Rightarrow> metrics \<Rightarrow> metrics" where
  "rx_rssi rssi m =
     (let m = m\<lparr>rssi_count := rssi_count m + 1, rssi_sum := rssi_sum m + scast rssi\<rparr>;
          m = (if sint rssi < sint (rssi_min m) then m\<lparr>rssi_min := rssi\<rparr> else m);
          m = (if sint rssi > sint (rssi_max m) then m\<lparr>rssi_max := rssi\<rparr> else m);
          k = rssi_index rssi
      in m\<lparr>rssi_hist := (rssi_hist m)[k := rssi_hist m ! k + 1]\<rparr>)"

definition metrics_rx :: "bench_header \<Rightarrow> u8 \<Rightarrow> u64 \<Rightarrow> metrics \<Rightarrow> metrics" where
  "metrics_rx header rssi now_us m =
     (let m = rx_rssi rssi (rx_sequence header (rx_count header now_us m))
      in if h_type header = PACKET_ECHO \<and> now_us \<ge> h_timestamp_us header
         then rtt_observe (now_us - h_timestamp_us header) m else m)"

section \<open>Well-formedness\<close>

text \<open>
  The shape of the arrays and reservoirs, and for every stream that its bitmap tracks some set of
  registered sequence numbers.
\<close>

definition dist_wf :: "sample_distribution \<Rightarrow> bool" where
  "dist_wf d \<longleftrightarrow> length (samples d) = METRIC_SAMPLE_CAPACITY \<and>
     unat (reservoir_count d) \<le> METRIC_SAMPLE_CAPACITY"

definition stream_ok :: "stream_metric \<Rightarrow> bool" where
  "stream_ok s \<longleftrightarrow> (\<exists>R. tracks s R)"

definition metrics_wf :: "metrics \<Rightarrow> bool" where
  "metrics_wf m \<longleftrightarrow> length (m_streams m) = HARNESS_MAX_STREAMS \<and> length (rssi_hist m) = 128 \<and>
     (\<forall>s\<in>set (m_streams m). stream_ok s) \<and> dist_wf (rtt m) \<and> dist_wf (dispatch_lateness m)"

lemma dist_rel_wf: "dist_rel d xs \<Longrightarrow> dist_wf d"
  by (auto simp: dist_wf_def dist_rel_def)

lemma dist_wf_reset [simp]: "dist_wf distribution_reset"
  by (rule dist_rel_wf [OF dist_rel_reset])

lemma dist_wf_add [simp]:
  assumes "dist_wf d"
  shows "dist_wf (distribution_add d v)"
proof (cases "unat (reservoir_count d) < METRIC_SAMPLE_CAPACITY")
  case True
  then show ?thesis
    using assms distribution_add_not_full(1) [OF True] distribution_add_fields(6) [of d v]
    by (simp add: dist_wf_def)
next
  case False
  then have "reservoir_count (distribution_add d v) = reservoir_count d"
    by (simp add: distribution_add_def Let_def)
  then show ?thesis using assms distribution_add_fields(6) [of d v] by (simp add: dist_wf_def)
qed

lemma dist_wf_bounds:
  assumes "dist_wf d"
  shows "length (samples d) = METRIC_SAMPLE_CAPACITY" "unat (reservoir_count d) \<le> METRIC_SAMPLE_CAPACITY"
  using assms by (auto simp: dist_wf_def)

lemmas tx_metric_defs = metrics_tx_requested_def metrics_tx_submitted_def
  metrics_tx_api_failure_def metrics_tx_slot_timeout_def metrics_tx_complete_def
  metrics_dispatch_lateness_def metrics_queue_drop_def metrics_drop_def

lemma upd_stream_simps [simp]:
  "totals (upd_stream i f m) = totals m"
  "rssi_hist (upd_stream i f m) = rssi_hist m"
  "rtt (upd_stream i f m) = rtt m"
  "dispatch_lateness (upd_stream i f m) = dispatch_lateness m"
  "rssi_count (upd_stream i f m) = rssi_count m"
  "first_tx_us (upd_stream i f m) = first_tx_us m"
  "last_tx_us (upd_stream i f m) = last_tx_us m"
  "start_us (upd_stream i f m) = start_us m"
  "end_us (upd_stream i f m) = end_us m"
  "rssi_sum (upd_stream i f m) = rssi_sum m"
  "rssi_min (upd_stream i f m) = rssi_min m"
  "rssi_max (upd_stream i f m) = rssi_max m"
  "first_rx_us (upd_stream i f m) = first_rx_us m"
  "last_rx_us (upd_stream i f m) = last_rx_us m"
  "last_rtt (upd_stream i f m) = last_rtt m"
  "jitter_max (upd_stream i f m) = jitter_max m"
  "jitter_sum (upd_stream i f m) = jitter_sum m"
  "jitter_count (upd_stream i f m) = jitter_count m"
  "m_streams (upd_stream i f m) = (m_streams m)[i := f (m_streams m ! i)]"
  by (simp_all add: upd_stream_def)

lemma stream_ok_simps [simp]:
  "stream_ok zero_stream"
  "stream_ok (s\<lparr>sm_tx_requested := a\<rparr>) = stream_ok s"
  "stream_ok (s\<lparr>sm_tx_submitted := a\<rparr>) = stream_ok s"
  using tracks_zero by (auto simp: stream_ok_def tracks_def)

lemma stream_ok_observe [simp]: "stream_ok s \<Longrightarrow> stream_ok (sequence_observe s q)"
  using tracks_sequence_observe by (auto simp: stream_ok_def)

lemma metrics_wf_reset: "metrics_wf metrics_reset"
  by (simp add: metrics_wf_def metrics_reset_def)

lemma streams_update_ok:
  assumes "\<forall>s\<in>set xs. stream_ok s" "\<And>s. stream_ok s \<Longrightarrow> stream_ok (f s)"
  shows "\<forall>s\<in>set (xs[i := f (xs ! i)]). stream_ok s"
  using assms
  by (cases "i < length xs")
    (auto simp: list_update_beyond dest: subsetD [OF set_update_subset_insert])

lemma metrics_wf_upd_stream:
  assumes "metrics_wf m" "\<And>s. stream_ok s \<Longrightarrow> stream_ok (f s)"
  shows "metrics_wf (upd_stream i f m)"
  using assms streams_update_ok [of "m_streams m" f i]
  by (simp add: metrics_wf_def)

text \<open>Every transmission and drop counter operation keeps the store well-formed.\<close>

lemma metrics_wf_tx:
  assumes "metrics_wf m"
  shows "metrics_wf (metrics_tx_requested st m)" "metrics_wf (metrics_tx_submitted st l d m)"
    "metrics_wf (metrics_tx_api_failure m)" "metrics_wf (metrics_tx_slot_timeout m)"
    "metrics_wf (metrics_tx_complete ok m)" "metrics_wf (metrics_dispatch_lateness a s m)"
    "metrics_wf (metrics_queue_drop m)" "metrics_wf (metrics_drop x y m)"
proof -
  have t: "metrics_wf (m\<lparr>totals := t\<rparr>)" for t using assms by (simp add: metrics_wf_def)
  have u: "metrics_wf (upd_stream i (\<lambda>s. s\<lparr>sm_tx_requested := g s\<rparr>) (m\<lparr>totals := t\<rparr>))"
    "metrics_wf (upd_stream i (\<lambda>s. s\<lparr>sm_tx_submitted := g s\<rparr>) (m\<lparr>totals := t\<rparr>))" for i g t
    by (rule metrics_wf_upd_stream [OF t]; auto)+
  have f: "metrics_wf (n\<lparr>first_tx_us := x\<rparr>)" "metrics_wf (n\<lparr>last_tx_us := x\<rparr>)" if "metrics_wf n" for n x
    using that by (simp_all add: metrics_wf_def)
  show "metrics_wf (metrics_tx_requested st m)" "metrics_wf (metrics_tx_submitted st l d m)"
    "metrics_wf (metrics_tx_api_failure m)" "metrics_wf (metrics_tx_slot_timeout m)"
    "metrics_wf (metrics_tx_complete ok m)" "metrics_wf (metrics_queue_drop m)"
    "metrics_wf (metrics_drop x y m)"
    using assms by (auto simp: tx_metric_defs Let_def intro!: f u t)
  show "metrics_wf (metrics_dispatch_lateness a s m)"
    using assms by (simp add: metrics_dispatch_lateness_def metrics_wf_def)
qed

lemma rssi_index_bound: "rssi_index r < 128"
  by (auto simp: rssi_index_def Let_def)

lemma metrics_wf_rtt_observe: "metrics_wf m \<Longrightarrow> metrics_wf (rtt_observe r m)"
  by (simp add: rtt_observe_def Let_def metrics_wf_def)

lemma metrics_wf_rx:
  assumes "metrics_wf m"
  shows "metrics_wf (metrics_rx h r t m)"
proof -
  have 1: "metrics_wf (rx_count h t n)" if "metrics_wf n" for n
    using that by (simp add: rx_count_def Let_def metrics_wf_def)
  have 2: "metrics_wf (rx_sequence h n)" if n: "metrics_wf n" for n
  proof -
    have "metrics_wf (upd_stream (unat (h_stream_id h)) (\<lambda>s. sequence_observe s (h_seq h)) n)"
      using n by (rule metrics_wf_upd_stream) simp
    then show ?thesis by (simp add: rx_sequence_def Let_def metrics_wf_def)
  qed
  have 3: "metrics_wf (rx_rssi r n)" if "metrics_wf n" for n
    using that by (simp add: rx_rssi_def Let_def metrics_wf_def)
  show ?thesis
    using assms by (simp add: metrics_rx_def Let_def 1 2 3 metrics_wf_rtt_observe)
qed

section \<open>Per-stream counters add up to the totals\<close>

lemma rtt_observe_frame [frame_simps]:
  "totals (rtt_observe r m) = totals m" "m_streams (rtt_observe r m) = m_streams m"
  "rssi_count (rtt_observe r m) = rssi_count m" "rssi_hist (rtt_observe r m) = rssi_hist m"
  "rssi_sum (rtt_observe r m) = rssi_sum m" "first_tx_us (rtt_observe r m) = first_tx_us m"
  "last_tx_us (rtt_observe r m) = last_tx_us m"
  "first_rx_us (rtt_observe r m) = first_rx_us m" "last_rx_us (rtt_observe r m) = last_rx_us m"
  "start_us (rtt_observe r m) = start_us m" "end_us (rtt_observe r m) = end_us m"
  "dispatch_lateness (rtt_observe r m) = dispatch_lateness m"
  "rtt (rtt_observe r m) = distribution_add (rtt m) (ucast (bound_u32 r))"
  by (simp_all add: rtt_observe_def Let_def)

lemma metrics_rx_fields [frame_simps]:
  "m_streams (metrics_rx h r t m) = (m_streams m)
     [unat (h_stream_id h) := sequence_observe (m_streams m ! unat (h_stream_id h)) (h_seq h)]"
  "rssi_count (metrics_rx h r t m) = rssi_count m + 1"
  "rssi_sum (metrics_rx h r t m) = rssi_sum m + scast r"
  "rssi_hist (metrics_rx h r t m) =
     (rssi_hist m)[rssi_index r := rssi_hist m ! rssi_index r + 1]"
  "t_rx_packets (totals (metrics_rx h r t m)) = t_rx_packets (totals m) + 1"
  "t_rx_bytes (totals (metrics_rx h r t m)) = t_rx_bytes (totals m) + ucast (h_packet_len h)"
  "last_rx_us (metrics_rx h r t m) = t"
  "dispatch_lateness (metrics_rx h r t m) = dispatch_lateness m"
  by (simp_all add: metrics_rx_def rx_rssi_def rx_sequence_def rx_count_def Let_def frame_simps)

lemma metrics_rx_totals_frame [frame_simps]:
  "t_tx_requested (totals (metrics_rx h r t m)) = t_tx_requested (totals m)"
  "t_tx_submitted (totals (metrics_rx h r t m)) = t_tx_submitted (totals m)"
  "t_tx_bytes (totals (metrics_rx h r t m)) = t_tx_bytes (totals m)"
  "t_send_cb_success (totals (metrics_rx h r t m)) = t_send_cb_success (totals m)"
  "t_send_cb_failure (totals (metrics_rx h r t m)) = t_send_cb_failure (totals m)"
  "t_send_api_failure (totals (metrics_rx h r t m)) = t_send_api_failure (totals m)"
  "t_tx_slot_timeout (totals (metrics_rx h r t m)) = t_tx_slot_timeout (totals m)"
  "t_stale (totals (metrics_rx h r t m)) = t_stale (totals m)"
  "t_invalid (totals (metrics_rx h r t m)) = t_invalid (totals m)"
  "t_queue_drops (totals (metrics_rx h r t m)) = t_queue_drops (totals m)"
  by (simp_all add: metrics_rx_def rx_rssi_def rx_sequence_def rx_count_def Let_def frame_simps)

lemma metrics_rx_deltas:
  assumes "unat (h_stream_id h) < length (m_streams m)"
  shows "t_out_of_order (totals (metrics_rx h r t m)) = t_out_of_order (totals m) +
      (sm_out_of_order (sequence_observe (m_streams m ! unat (h_stream_id h)) (h_seq h)) -
       sm_out_of_order (m_streams m ! unat (h_stream_id h)))"
    "t_duplicate (totals (metrics_rx h r t m)) = t_duplicate (totals m) +
      (sm_duplicate (sequence_observe (m_streams m ! unat (h_stream_id h)) (h_seq h)) -
       sm_duplicate (m_streams m ! unat (h_stream_id h)))"
  using assms
  by (simp_all add: metrics_rx_def rx_rssi_def rx_sequence_def rx_count_def Let_def frame_simps)

text \<open>
  \<open>stream_total f m\<close> sums one counter over the streams. The store is consistent when the global
  counters are these sums, every received packet has one RSSI sample, and every RSSI sample one
  histogram entry.
\<close>

definition stream_total :: "(stream_metric \<Rightarrow> u64) \<Rightarrow> metrics \<Rightarrow> u64" where
  "stream_total f m = (\<Sum>s\<leftarrow>m_streams m. f s)"

definition totals_consistent :: "metrics \<Rightarrow> bool" where
  "totals_consistent m \<longleftrightarrow>
     t_tx_requested (totals m) = stream_total sm_tx_requested m \<and>
     t_tx_submitted (totals m) = stream_total sm_tx_submitted m \<and>
     t_rx_packets (totals m) = stream_total sm_rx m \<and>
     t_duplicate (totals m) = stream_total sm_duplicate m \<and>
     t_out_of_order (totals m) = stream_total sm_out_of_order m \<and>
     rssi_count m = t_rx_packets (totals m) \<and>
     (\<Sum>c\<leftarrow>rssi_hist m. c) = ucast (rssi_count m)"

lemma totals_consistent_reset: "totals_consistent metrics_reset"
  by (simp add: totals_consistent_def stream_total_def metrics_reset_def zero_totals_def
      zero_stream_def sum_list_replicate map_replicate)

lemma stream_total_update:
  "i < length (m_streams m) \<Longrightarrow> m_streams m' = (m_streams m)[i := s] \<Longrightarrow>
     stream_total f m' = stream_total f m + (f s - f (m_streams m ! i))"
  by (simp add: stream_total_def sum_list_map_update)

lemma sequence_observe_tx_frame [frame_simps]:
  "sm_tx_requested (sequence_observe s q) = sm_tx_requested s"
  "sm_tx_submitted (sequence_observe s q) = sm_tx_submitted s"
  by (simp_all add: sequence_observe_def Let_def)

lemma ucast_succ_32: "(ucast (w + 1 :: u64) :: u32) = ucast w + 1"
proof -
  have c: "(x :: int) mod 18446744073709551616 mod 4294967296 = x mod 4294967296" for x
    by (rule mod_mod_cancel) simp
  have e: "(x + 1) mod 18446744073709551616 mod 4294967296
      = (x mod 18446744073709551616 + 1) mod (4294967296 :: int)" for x
    unfolding c mod_add_left_eq [of "x mod 18446744073709551616" 4294967296, symmetric]
    by (simp only: mod_add_left_eq)
  show ?thesis by transfer (simp add: take_bit_eq_mod, rule e)
qed

lemma totals_consistent_rx:
  assumes c: "totals_consistent m" and wf: "metrics_wf m" and h: "header_wf h"
  shows "totals_consistent (metrics_rx h r t m)"
proof -
  let ?i = "unat (h_stream_id h)"
  have i: "?i < length (m_streams m)" using wf h by (simp add: metrics_wf_def header_wf_def)
  have k: "rssi_index r < length (rssi_hist m)" using wf rssi_index_bound by (simp add: metrics_wf_def)
  note st = stream_total_update [OF i metrics_rx_fields(1)]
  show ?thesis
    using c sum_list_map_update [OF k, of "\<lambda>x. x"]
    by (simp add: totals_consistent_def st metrics_rx_fields metrics_rx_totals_frame
        metrics_rx_deltas [OF i] frame_simps ucast_succ_32)
qed

text \<open>
  A transmission on a stream of the table keeps the totals consistent; the other counters are not
  per-stream.
\<close>

lemma stream_total_cong: "m_streams m' = m_streams m \<Longrightarrow> stream_total f m' = stream_total f m"
  by (simp add: stream_total_def)

lemma totals_consistent_tx_requested:
  assumes "totals_consistent m" "metrics_wf m" "unat st < HARNESS_MAX_STREAMS"
  shows "totals_consistent (metrics_tx_requested st m)"
proof -
  let ?m' = "metrics_tx_requested st m"
  have i: "unat st < length (m_streams m)" using assms by (simp add: metrics_wf_def)
  have "m_streams ?m' = (m_streams m)[unat st :=
      (m_streams m ! unat st)\<lparr>sm_tx_requested := sm_tx_requested (m_streams m ! unat st) + 1\<rparr>]"
    using assms(3) by (simp add: metrics_tx_requested_def Let_def)
  from stream_total_update [OF i this] show ?thesis
    using assms(1,3) by (simp add: totals_consistent_def metrics_tx_requested_def Let_def)
qed

lemma totals_consistent_tx_submitted:
  assumes "totals_consistent m" "metrics_wf m" "unat st < HARNESS_MAX_STREAMS"
  shows "totals_consistent (metrics_tx_submitted st l d m)"
proof -
  let ?m' = "metrics_tx_submitted st l d m"
  have i: "unat st < length (m_streams m)" using assms by (simp add: metrics_wf_def)
  have "m_streams ?m' = (m_streams m)[unat st :=
      (m_streams m ! unat st)\<lparr>sm_tx_submitted := sm_tx_submitted (m_streams m ! unat st) + 1\<rparr>]"
    using assms(3) by (simp add: metrics_tx_submitted_def Let_def)
  note st = stream_total_update [OF i this]
  have "t_tx_requested (totals ?m') = t_tx_requested (totals m)"
    "t_tx_submitted (totals ?m') = t_tx_submitted (totals m) + 1"
    "t_rx_packets (totals ?m') = t_rx_packets (totals m)"
    "t_duplicate (totals ?m') = t_duplicate (totals m)"
    "t_out_of_order (totals ?m') = t_out_of_order (totals m)"
    "rssi_count ?m' = rssi_count m" "rssi_hist ?m' = rssi_hist m"
    by (simp_all add: metrics_tx_submitted_def Let_def)
  with assms(1) show ?thesis by (simp add: totals_consistent_def st)
qed

lemma totals_consistent_other:
  assumes "totals_consistent m"
  shows "totals_consistent (metrics_tx_api_failure m)" "totals_consistent (metrics_tx_slot_timeout m)"
    "totals_consistent (metrics_tx_complete ok m)" "totals_consistent (metrics_dispatch_lateness a s m)"
    "totals_consistent (metrics_queue_drop m)" "totals_consistent (metrics_drop x y m)"
  using assms by (simp_all add: totals_consistent_def stream_total_def tx_metric_defs Let_def)

text \<open>\<open>store_ok\<close>: the invariant of the store, kept by every operation on a stream of the table.\<close>

definition store_ok :: "metrics \<Rightarrow> bool" where
  "store_ok m \<longleftrightarrow> metrics_wf m \<and> totals_consistent m"

lemma store_ok_reset: "store_ok metrics_reset"
  by (simp add: store_ok_def metrics_wf_reset totals_consistent_reset)

lemma store_ok_ops [intro]:
  assumes "store_ok m"
  shows "unat st < HARNESS_MAX_STREAMS \<Longrightarrow> store_ok (metrics_tx_requested st m)"
    "unat st < HARNESS_MAX_STREAMS \<Longrightarrow> store_ok (metrics_tx_submitted st l d m)"
    "store_ok (metrics_tx_api_failure m)" "store_ok (metrics_tx_slot_timeout m)"
    "store_ok (metrics_tx_complete ok m)" "store_ok (metrics_dispatch_lateness a s m)"
    "store_ok (metrics_queue_drop m)" "store_ok (metrics_drop x y m)"
    "header_wf h \<Longrightarrow> store_ok (metrics_rx h r t m)"
  using assms
  by (simp_all add: store_ok_def metrics_wf_tx metrics_wf_rx totals_consistent_other
      totals_consistent_tx_requested totals_consistent_tx_submitted totals_consistent_rx)

lemma store_ok_times [simp]:
  "store_ok (m\<lparr>start_us := a\<rparr>) = store_ok m" "store_ok (m\<lparr>end_us := a\<rparr>) = store_ok m"
  by (simp_all add: store_ok_def metrics_wf_def totals_consistent_def stream_total_def)

section \<open>The transmission ledger\<close>

text \<open>
  Every attempt to transmit is requested once and ends in exactly one of: submitted, rejected by
  the send API, or timed out waiting for a slot. \<open>tx_balance\<close> counts the attempts whose outcome is
  still open; the senders (generator and echo responder) leave it as it was.
\<close>

definition tx_balance :: "metrics \<Rightarrow> u64" where
  "tx_balance m = t_tx_requested (totals m) - t_tx_submitted (totals m)
     - t_send_api_failure (totals m) - t_tx_slot_timeout (totals m)"

locale tx_ledger =
  fixes balance :: "'m \<Rightarrow> u64"
    and requested :: "u16 \<Rightarrow> 'm \<Rightarrow> 'm"
    and submitted :: "u16 \<Rightarrow> u16 \<Rightarrow> u64 \<Rightarrow> 'm \<Rightarrow> 'm"
    and api_failure slot_timeout :: "'m \<Rightarrow> 'm"
    and lateness :: "u64 \<Rightarrow> u64 \<Rightarrow> 'm \<Rightarrow> 'm"
  assumes balance_requested: "balance (requested st m) = balance m + 1"
    and balance_submitted: "balance (submitted st l d m) = balance m - 1"
    and balance_api_failure: "balance (api_failure m) = balance m - 1"
    and balance_slot_timeout: "balance (slot_timeout m) = balance m - 1"
    and balance_lateness: "balance (lateness a s m) = balance m"
begin

lemmas balance_simps = balance_requested balance_submitted balance_api_failure
  balance_slot_timeout balance_lateness

text \<open>The four ways an attempt can end.\<close>

lemma attempt_closed:
  "balance (submitted st l d (requested st m)) = balance m"
  "balance (api_failure (requested st m)) = balance m"
  "balance (slot_timeout (requested st m)) = balance m"
  "balance (slot_timeout (lateness a s (requested st m))) = balance m"
  "balance (submitted st l d (lateness a s (requested st m))) = balance m"
  "balance (api_failure (lateness a s (requested st m))) = balance m"
  by (simp_all add: balance_simps)

end

interpretation ledger: tx_ledger tx_balance metrics_tx_requested metrics_tx_submitted
  metrics_tx_api_failure metrics_tx_slot_timeout metrics_dispatch_lateness
  by unfold_locales (simp_all add: tx_balance_def tx_metric_defs Let_def algebra_simps)

lemma tx_balance_frame [frame_simps]:
  "tx_balance (metrics_tx_complete ok m) = tx_balance m"
  "tx_balance (metrics_queue_drop m) = tx_balance m"
  "tx_balance (metrics_drop x y m) = tx_balance m"
  "tx_balance (metrics_rx h r t m) = tx_balance m"
  by (simp_all add: tx_balance_def tx_metric_defs Let_def frame_simps)

lemma tx_balance_reset: "tx_balance metrics_reset = 0"
  by (simp add: tx_balance_def metrics_reset_def zero_totals_def)

section \<open>Round-trip samples\<close>

text \<open>An echo from the past adds one sample; anything else leaves the distribution alone.\<close>

lemma rtt_metrics_rx:
  "rtt (metrics_rx h r t m) =
     (if h_type h = PACKET_ECHO \<and> t \<ge> h_timestamp_us h
      then distribution_add (rtt m) (ucast (bound_u32 (t - h_timestamp_us h))) else rtt m)"
  by (simp add: metrics_rx_def rx_rssi_def rx_sequence_def rx_count_def Let_def frame_simps)

text \<open>\<open>jitter_of xs\<close>: the absolute differences of consecutive samples.\<close>

fun jitter_of :: "u32 list \<Rightarrow> u32 list" where
  "jitter_of (x # y # xs) = (if y > x then y - x else x - y) # jitter_of (y # xs)"
| "jitter_of _ = []"

lemma jitter_of_snoc:
  "xs \<noteq> [] \<Longrightarrow> jitter_of (xs @ [y]) =
     jitter_of xs @ [if y > last xs then y - last xs else last xs - y]"
  by (induction xs rule: jitter_of.induct) auto

definition rtt_rel :: "metrics \<Rightarrow> u32 list \<Rightarrow> bool" where
  "rtt_rel m xs \<longleftrightarrow> dist_rel (rtt m) xs \<and>
     (xs \<noteq> [] \<longrightarrow> last_rtt m = last xs) \<and>
     jitter_count m = of_nat (length (jitter_of xs)) \<and>
     jitter_sum m = of_nat (\<Sum>x\<leftarrow>jitter_of xs. unat x) \<and>
     jitter_max m = Max (insert 0 (set (jitter_of xs)))"

lemma rtt_rel_reset: "rtt_rel metrics_reset []"
  using dist_rel_reset by (simp add: rtt_rel_def metrics_reset_def)

lemma rtt_observe_fields:
  fixes t m
  defines "b \<equiv> bound_u32 t"
  defines "j \<equiv> if b > last_rtt m then b - last_rtt m else last_rtt m - b"
  shows "last_rtt (rtt_observe t m) = b"
    "jitter_sum (rtt_observe t m) =
       (if sample_count (rtt m) = 0 then jitter_sum m else jitter_sum m + ucast j)"
    "jitter_count (rtt_observe t m) =
       (if sample_count (rtt m) = 0 then jitter_count m else jitter_count m + 1)"
    "jitter_max (rtt_observe t m) =
       (if sample_count (rtt m) = 0 then jitter_max m else max j (jitter_max m))"
  unfolding rtt_observe_def Let_def b_def [symmetric] j_def [symmetric]
  by (auto simp: max_def)

lemma Max_insert_snoc: "Max (insert (0 :: u32) (set (xs @ [x]))) = max x (Max (insert 0 (set xs)))"
proof -
  have "insert 0 (set (xs @ [x])) = insert x (insert 0 (set xs))" by auto
  then show ?thesis by (simp only: Max_insert [OF finite_word insert_not_empty])
qed

text \<open>
  The code takes the previous sample into account when the sample counter is not zero, so the
  jitter is exact as long as that 64-bit counter has not wrapped.
\<close>

lemma rtt_rel_observe:
  assumes r: "rtt_rel m xs" and n: "length xs < 2 ^ 64"
  shows "rtt_rel (rtt_observe t m) (xs @ [bound_u32 t])"
proof -
  have cnt: "sample_count (rtt m) \<noteq> 0 \<longleftrightarrow> xs \<noteq> []"
    using r n by (auto simp: rtt_rel_def dist_rel_def word_of_nat_eq_0_iff dest: dvd_imp_le)
  have d: "dist_rel (rtt (rtt_observe t m)) (xs @ [bound_u32 t])"
    using r dist_rel_add [of "rtt m" xs "ucast (bound_u32 t)"] by (simp add: frame_simps rtt_rel_def)
  show ?thesis
  proof (cases "xs = []")
    case True
    then show ?thesis
      using d r cnt by (simp add: rtt_rel_def rtt_observe_fields)
  next
    case False
    then show ?thesis
      using d r cnt
      unfolding rtt_rel_def jitter_of_snoc [OF False] Max_insert_snoc
      by (simp add: rtt_observe_fields)
  qed
qed

end
