(* ===== verification/Platform.thy ===== *)
theory Platform
  imports Metrics Cjson
begin

text \<open>
  What the firmware runs on. FreeRTOS, the Wi-Fi driver, ESP-NOW, the timers and the console are
  not part of the repository: they are the parameter \<open>'w platform\<close>, a record with one function
  per external call over an opaque world \<open>'w\<close>. The globals of the firmware and the world make up
  the machine state \<open>'w fw\<close>.

  The documented behaviour the firmware relies on is stated as predicates over a platform
  (\<open>slot_laws\<close> for the counting semaphore and the send callback), used as named hypotheses.
  \<open>ref_platform\<close> is a concrete platform that satisfies them, for the witnesses.
\<close>

section \<open>Error codes, Wi-Fi requests and receiver events\<close>

datatype esp_err =
  ESP_OK | ESP_ERR_NO_MEM | ESP_ERR_INVALID_STATE | ESP_ERR_NOT_SUPPORTED | ESP_ERR_TIMEOUT
| ESP_ERR_OTHER int

datatype phy_mode =
  WIFI_PHY_MODE_11A | WIFI_PHY_MODE_11B | WIFI_PHY_MODE_11G | WIFI_PHY_MODE_HT20
| WIFI_PHY_MODE_HE20

datatype phy_rate_code =
  WIFI_PHY_RATE_1M_L | WIFI_PHY_RATE_6M | WIFI_PHY_RATE_24M | WIFI_PHY_RATE_54M
| WIFI_PHY_RATE_MCS0_LGI | WIFI_PHY_RATE_MCS7_LGI

record rate_config =
  phymode :: phy_mode
  rate :: phy_rate_code
  ersu :: bool
  dcm :: bool

record peer_info =
  peer_addr :: "u8 list"
  peer_channel :: u8
  peer_encrypt :: bool
  peer_lmk :: "u8 list"

text \<open>The driver configuration calls of \<^verbatim>\<open>radio.c\<close>, each with the arguments it passes.\<close>

datatype wifi_request =
  Netif_Init | Event_Loop_Create_Default | Wifi_Init | Wifi_Set_Storage_Ram | Wifi_Set_Mode_Sta
| Wifi_Start | Wifi_Set_Ps_None | Wifi_Set_Ps_Min_Modem | Now_Init
| Now_Register_Send_Cb | Now_Register_Recv_Cb
| Wifi_Set_Country_Code string | Wifi_Set_Band_Mode_5G_Only | Wifi_Set_Band_Mode_2G_Only
| Wifi_Set_Channel u8 | Wifi_Set_Max_Tx_Power u8 | Now_Set_Pmk "u8 list"
| Now_Add_Peer peer_info | Now_Set_Peer_Rate_Config "u8 list" rate_config

datatype event_type = EV_RX | EV_TX_OK | EV_TX_FAIL | EV_DROP | EV_BARRIER

text \<open>\<^verbatim>\<open>event_t\<close>; \<open>ev_waiter\<close> is a task handle, \<open>0\<close> when not set.\<close>

record event =
  ev_type :: event_type
  ev_len :: u16
  ev_rssi :: u8
  ev_at :: u64
  ev_waiter :: nat
  ev_data :: "u8 list"

definition zero_event :: "event_type \<Rightarrow> event" where
  "zero_event t = \<lparr>ev_type = t, ev_len = 0, ev_rssi = 0, ev_at = 0, ev_waiter = 0,
     ev_data = replicate HARNESS_MAX_PACKET_SIZE 0\<rparr>"

section \<open>The platform\<close>

text \<open>
  A call that returns a value gives it with the new world. \<open>p_sem_take\<close> and \<open>p_queue_send\<close> take a
  block time in ticks and say whether they succeeded; \<open>p_now_send\<close> is \<^verbatim>\<open>esp_now_send\<close> with the
  peer address and the frame; \<open>p_fetch_peer\<close> is \<^verbatim>\<open>esp_now_fetch_peer(true, ...)\<close>, \<open>None\<close> when it
  does not return \<^verbatim>\<open>ESP_OK\<close>. \<open>p_read_line\<close> is \<^verbatim>\<open>fgets\<close> on the console (\<open>None\<close> when it fails),
  \<open>p_clear_input\<close> is \<^verbatim>\<open>clearerr\<close>, and \<open>p_send_json\<close> prints a document and a newline and flushes.
\<close>

record 'w platform =
  p_ms_to_ticks :: "nat \<Rightarrow> u32"
  p_sem_create :: "nat \<Rightarrow> nat \<Rightarrow> 'w \<Rightarrow> 'w"
  p_sem_take :: "u32 \<Rightarrow> 'w \<Rightarrow> bool \<times> 'w"
  p_sem_give :: "'w \<Rightarrow> 'w"
  p_queue_create :: "nat \<Rightarrow> 'w \<Rightarrow> 'w"
  p_queue_send :: "event \<Rightarrow> u32 \<Rightarrow> 'w \<Rightarrow> bool \<times> 'w"
  p_queue_receive :: "'w \<Rightarrow> event option \<times> 'w"
  p_current_task :: "'w \<Rightarrow> nat \<times> 'w"
  p_notify_give :: "nat \<Rightarrow> 'w \<Rightarrow> 'w"
  p_notify_take :: "u32 \<Rightarrow> 'w \<Rightarrow> bool \<times> 'w"
  p_task_create :: "string \<Rightarrow> 'w \<Rightarrow> bool \<times> 'w"
  p_tick_count :: "'w \<Rightarrow> u32 \<times> 'w"
  p_delay :: "u32 \<Rightarrow> 'w \<Rightarrow> 'w"
  p_delay_us :: "u32 \<Rightarrow> 'w \<Rightarrow> 'w"
  p_yield :: "'w \<Rightarrow> 'w"
  p_timer :: "'w \<Rightarrow> u64 \<times> 'w"
  p_now_send :: "u8 list \<Rightarrow> u8 list \<Rightarrow> 'w \<Rightarrow> esp_err \<times> 'w"
  p_wifi :: "wifi_request \<Rightarrow> 'w \<Rightarrow> esp_err \<times> 'w"
  p_fetch_peer :: "'w \<Rightarrow> u8 list option \<times> 'w"
  p_del_peer :: "u8 list \<Rightarrow> 'w \<Rightarrow> 'w"
  p_random :: "'w \<Rightarrow> u32 \<times> 'w"
  p_read_mac :: "'w \<Rightarrow> u8 list \<times> 'w"
  p_read_line :: "'w \<Rightarrow> string option \<times> 'w"
  p_clear_input :: "'w \<Rightarrow> 'w"
  p_send_json :: "json \<Rightarrow> 'w \<Rightarrow> 'w"
  p_idf_version :: string
  p_err_name :: "esp_err \<Rightarrow> string"

section \<open>The machine state\<close>

text \<open>
  The globals: \<^verbatim>\<open>g_config\<close>, \<^verbatim>\<open>g_state\<close>, \<^verbatim>\<open>g_metrics\<close>, the window of \<^verbatim>\<open>radio.c\<close>, whether the
  receiver's queue exists, whether the generator's task handle is set, and the static id of
  \<^verbatim>\<open>boot_id\<close>.
\<close>

record 'w fw =
  g_config :: harness_config
  g_state :: harness_state
  g_metrics :: metrics
  current_tx_window :: u16
  queue_ready :: bool
  gen_handle :: bool
  boot_static :: u32
  world :: 'w

definition call :: "('w \<Rightarrow> 'a \<times> 'w) \<Rightarrow> 'w fw \<Rightarrow> 'a \<times> 'w fw" where
  "call f s = (fst (f (world s)), s\<lparr>world := snd (f (world s))\<rparr>)"

definition exec :: "('w \<Rightarrow> 'w) \<Rightarrow> 'w fw \<Rightarrow> 'w fw" where
  "exec f s = s\<lparr>world := f (world s)\<rparr>"

definition upd_metrics :: "(metrics \<Rightarrow> metrics) \<Rightarrow> 'w fw \<Rightarrow> 'w fw" where
  "upd_metrics f s = s\<lparr>g_metrics := f (g_metrics s)\<rparr>"

lemma call_simps [simp]:
  "fst (call f s) = fst (f (world s))"
  "g_config (snd (call f s)) = g_config s" "g_state (snd (call f s)) = g_state s"
  "g_metrics (snd (call f s)) = g_metrics s"
  "current_tx_window (snd (call f s)) = current_tx_window s"
  "queue_ready (snd (call f s)) = queue_ready s" "gen_handle (snd (call f s)) = gen_handle s"
  "boot_static (snd (call f s)) = boot_static s" "world (snd (call f s)) = snd (f (world s))"
  by (simp_all add: call_def)

lemma exec_simps [simp]:
  "g_config (exec h s) = g_config s" "g_state (exec h s) = g_state s"
  "g_metrics (exec h s) = g_metrics s" "current_tx_window (exec h s) = current_tx_window s"
  "queue_ready (exec h s) = queue_ready s" "gen_handle (exec h s) = gen_handle s"
  "boot_static (exec h s) = boot_static s" "world (exec h s) = h (world s)"
  by (simp_all add: exec_def)

lemma upd_metrics_simps [simp]:
  "g_config (upd_metrics u s) = g_config s" "g_state (upd_metrics u s) = g_state s"
  "g_metrics (upd_metrics u s) = u (g_metrics s)"
  "current_tx_window (upd_metrics u s) = current_tx_window s"
  "queue_ready (upd_metrics u s) = queue_ready s" "gen_handle (upd_metrics u s) = gen_handle s"
  "boot_static (upd_metrics u s) = boot_static s" "world (upd_metrics u s) = world s"
  by (simp_all add: upd_metrics_def)

end
