(* ===== verification/Events.thy ===== *)
theory Events
  imports Platform
begin

text \<open>
  The posting half of \<^verbatim>\<open>receiver.c\<close>: the callbacks capture a frame, a completion or a drop into
  the bounded event queue, and \<^verbatim>\<open>receiver_flush\<close> sends a barrier through it.
\<close>

definition RECEIVER_QUEUE_LENGTH :: nat where "RECEIVER_QUEUE_LENGTH = 64"

text \<open>\<^verbatim>\<open>memcpy(event.data, data, length)\<close> into the zero-initialised 250-byte array.\<close>

definition event_data :: "u8 list \<Rightarrow> u8 list" where
  "event_data data = data @ drop (length data) (replicate HARNESS_MAX_PACKET_SIZE 0)"

definition rx_event :: "u8 list \<Rightarrow> u8 \<Rightarrow> u64 \<Rightarrow> event" where
  "rx_event data rssi at_us = (zero_event EV_RX)\<lparr>ev_len := of_nat (length data), ev_rssi := rssi,
     ev_at := at_us, ev_data := event_data data\<rparr>"

definition receiver_post_rx ::
  "'w platform \<Rightarrow> u8 list \<Rightarrow> u8 \<Rightarrow> u64 \<Rightarrow> 'w fw \<Rightarrow> 'w fw" where
  "receiver_post_rx P data rssi at_us s =
     (let (ok, s) = call (p_queue_send P (rx_event data rssi at_us) 0) s
      in if \<not> ok then upd_metrics metrics_queue_drop s else s)"

definition receiver_post_tx :: "'w platform \<Rightarrow> bool \<Rightarrow> 'w fw \<Rightarrow> 'w fw" where
  "receiver_post_tx P success s =
     (let event = zero_event (if success then EV_TX_OK else EV_TX_FAIL);
          (ok, s) = call (p_queue_send P event 0) s
      in if \<not> ok then upd_metrics metrics_queue_drop s else s)"

text \<open>The two arguments are ignored, and a full queue is not counted.\<close>

definition receiver_post_drop :: "'w platform \<Rightarrow> bool \<Rightarrow> bool \<Rightarrow> 'w fw \<Rightarrow> 'w fw" where
  "receiver_post_drop P stale invalid s =
     (if queue_ready s then snd (call (p_queue_send P (zero_event EV_DROP) 0) s) else s)"

definition receiver_flush :: "'w platform \<Rightarrow> u32 \<Rightarrow> 'w fw \<Rightarrow> bool \<times> 'w fw" where
  "receiver_flush P timeout_ms s =
     (if \<not> queue_ready s then (False, s)
      else let (task, s) = call (p_current_task P) s;
               event = (zero_event EV_BARRIER)\<lparr>ev_waiter := task\<rparr>;
               (ok, s) = call (p_queue_send P event (p_ms_to_ticks P (unat timeout_ms))) s
           in if \<not> ok then (False, s)
              else call (p_notify_take P (p_ms_to_ticks P (unat timeout_ms))) s)"

lemma post_frame [frame_simps]:
  "g_config (receiver_post_rx P d r t s) = g_config s"
  "g_state (receiver_post_rx P d r t s) = g_state s"
  "current_tx_window (receiver_post_rx P d r t s) = current_tx_window s"
  "g_config (receiver_post_tx P b s) = g_config s"
  "g_state (receiver_post_tx P b s) = g_state s"
  "current_tx_window (receiver_post_tx P b s) = current_tx_window s"
  "g_config (receiver_post_drop P x y s) = g_config s"
  "g_state (receiver_post_drop P x y s) = g_state s"
  "current_tx_window (receiver_post_drop P x y s) = current_tx_window s"
  "g_metrics (receiver_post_drop P x y s) = g_metrics s"
  by (simp_all add: receiver_post_rx_def receiver_post_tx_def receiver_post_drop_def Let_def
      case_prod_unfold)

lemma post_metrics:
  "g_metrics (receiver_post_rx P d r t s) = g_metrics s \<or>
   g_metrics (receiver_post_rx P d r t s) = metrics_queue_drop (g_metrics s)"
  "g_metrics (receiver_post_tx P b s) = g_metrics s \<or>
   g_metrics (receiver_post_tx P b s) = metrics_queue_drop (g_metrics s)"
  by (simp_all add: receiver_post_rx_def receiver_post_tx_def Let_def case_prod_unfold)

lemma receiver_flush_frame [frame_simps]:
  "g_config (snd (receiver_flush P t s)) = g_config s"
  "g_state (snd (receiver_flush P t s)) = g_state s"
  "g_metrics (snd (receiver_flush P t s)) = g_metrics s"
  "current_tx_window (snd (receiver_flush P t s)) = current_tx_window s"
  "queue_ready (snd (receiver_flush P t s)) = queue_ready s"
  "gen_handle (snd (receiver_flush P t s)) = gen_handle s"
  by (simp_all add: receiver_flush_def Let_def case_prod_unfold)

end
