(* ===== verification/Platform_Laws.thy ===== *)
theory Platform_Laws
  imports Platform
begin

text \<open>
  The documented behaviour of the RTOS and driver objects the firmware relies on, as predicates
  over a platform and abstraction functions of its world, and \<open>ref_platform\<close>, a concrete
  platform that satisfies all of them.
\<close>

section \<open>The laws\<close>

text \<open>
  \<open>avail w\<close> is the count of the semaphore \<^verbatim>\<open>tx_ready\<close>, \<open>pending w\<close> the number of frames
  \<^verbatim>\<open>esp_now_send\<close> accepted whose send callback has not run yet. A callback that runs during a
  blocking call moves one unit from \<open>pending\<close> to \<open>avail\<close>, so only their sum is fixed there. A
  successful take obtains one token; without a block time it succeeds when there is one and starts
  no transmission. A give returns one token as long as the count is below its maximum, an accepted
  frame owes one callback; creating the semaphore sets the count; no other call touches either.
\<close>

definition slots :: "('w \<Rightarrow> nat) \<Rightarrow> ('w \<Rightarrow> nat) \<Rightarrow> 'w \<Rightarrow> nat" where
  "slots avail pending w = avail w + pending w"

definition keeps :: "('w \<Rightarrow> 'v) \<Rightarrow> ('w \<Rightarrow> 'a \<times> 'w) \<Rightarrow> bool" where
  "keeps v f \<longleftrightarrow> (\<forall>w. v (snd (f w)) = v w)"

definition keeps_world :: "('w \<Rightarrow> 'v) \<Rightarrow> ('w \<Rightarrow> 'w) \<Rightarrow> bool" where
  "keeps_world v f \<longleftrightarrow> (\<forall>w. v (f w) = v w)"

text \<open>The calls that have nothing to do with the semaphore, the queue or the peer list.\<close>

definition neutral_calls :: "'w platform \<Rightarrow> ('w \<Rightarrow> 'v) \<Rightarrow> bool" where
  "neutral_calls P v \<longleftrightarrow>
     keeps v (p_current_task P) \<and> (\<forall>n. keeps_world v (p_notify_give P n)) \<and>
     (\<forall>t. keeps v (p_notify_take P t)) \<and> (\<forall>n. keeps v (p_task_create P n)) \<and>
     keeps v (p_tick_count P) \<and> (\<forall>t. keeps_world v (p_delay P t)) \<and>
     (\<forall>t. keeps_world v (p_delay_us P t)) \<and> keeps_world v (p_yield P) \<and> keeps v (p_timer P) \<and>
     keeps v (p_random P) \<and> keeps v (p_read_mac P) \<and> keeps v (p_read_line P) \<and>
     keeps_world v (p_clear_input P) \<and> (\<forall>d. keeps_world v (p_send_json P d))"

definition slot_laws :: "'w platform \<Rightarrow> ('w \<Rightarrow> nat) \<Rightarrow> ('w \<Rightarrow> nat) \<Rightarrow> bool" where
  "slot_laws P avail pending \<longleftrightarrow>
     (\<forall>t w. slots avail pending w =
        slots avail pending (snd (p_sem_take P t w)) + of_bool (fst (p_sem_take P t w))) \<and>
     (\<forall>w. (avail w > 0 \<longrightarrow> fst (p_sem_take P 0 w)) \<and>
        pending (snd (p_sem_take P 0 w)) \<le> pending w) \<and>
     (\<forall>w. avail w < HARNESS_MAX_TX_WINDOW \<longrightarrow>
        avail (p_sem_give P w) = avail w + 1 \<and> pending (p_sem_give P w) = pending w) \<and>
     (\<forall>a d w. slots avail pending (snd (p_now_send P a d w)) =
        slots avail pending w + of_bool (fst (p_now_send P a d w) = ESP_OK)) \<and>
     (\<forall>m n w. avail (p_sem_create P m n w) = n \<and> pending (p_sem_create P m n w) = pending w) \<and>
     (\<forall>n. keeps_world (slots avail pending) (p_queue_create P n)) \<and>
     (\<forall>e t. keeps (slots avail pending) (p_queue_send P e t)) \<and>
     keeps (slots avail pending) (p_queue_receive P) \<and>
     (\<forall>r. keeps (slots avail pending) (p_wifi P r)) \<and>
     keeps (slots avail pending) (p_fetch_peer P) \<and>
     (\<forall>a. keeps_world (slots avail pending) (p_del_peer P a)) \<and>
     neutral_calls P (slots avail pending)"

text \<open>
  \<open>queued w\<close> is the content of the receiver's queue, oldest event first: bounded, first in first
  out, and sending without a block time fails exactly when it is full.
\<close>

definition queue_laws :: "'w platform \<Rightarrow> ('w \<Rightarrow> event list) \<Rightarrow> bool" where
  "queue_laws P queued \<longleftrightarrow>
     (\<forall>e t w. queued (snd (p_queue_send P e t w)) =
        (if fst (p_queue_send P e t w) then queued w @ [e] else queued w)) \<and>
     (\<forall>e w. fst (p_queue_send P e 0 w) \<longleftrightarrow> length (queued w) < 64) \<and>
     (\<forall>n w. queued (p_queue_create P n w) = []) \<and> (\<forall>m n. keeps_world queued (p_sem_create P m n)) \<and>
     (\<forall>w. queued w = [] \<longrightarrow>
        fst (p_queue_receive P w) = None \<and> queued (snd (p_queue_receive P w)) = []) \<and>
     (\<forall>w e es. queued w = e # es \<longrightarrow>
        fst (p_queue_receive P w) = Some e \<and> queued (snd (p_queue_receive P w)) = es) \<and>
     (\<forall>t. keeps queued (p_sem_take P t)) \<and> keeps_world queued (p_sem_give P) \<and>
     (\<forall>a d. keeps queued (p_now_send P a d)) \<and> (\<forall>r. keeps queued (p_wifi P r)) \<and>
     keeps queued (p_fetch_peer P) \<and> (\<forall>a. keeps_world queued (p_del_peer P a)) \<and>
     neutral_calls P queued"

text \<open>
  \<open>peers w\<close> is the driver's peer list: fetching from the head returns its first entry, deleting
  removes the address, adding a peer successfully appends it.
\<close>

definition peer_laws :: "'w platform \<Rightarrow> ('w \<Rightarrow> u8 list list) \<Rightarrow> bool" where
  "peer_laws P peers \<longleftrightarrow>
     (\<forall>w. fst (p_fetch_peer P w) = (case peers w of [] \<Rightarrow> None | a # _ \<Rightarrow> Some a)) \<and>
     keeps peers (p_fetch_peer P) \<and>
     (\<forall>a w. peers (p_del_peer P a w) = removeAll a (peers w)) \<and>
     (\<forall>i w. fst (p_wifi P (Now_Add_Peer i) w) = ESP_OK \<longrightarrow>
        peers (snd (p_wifi P (Now_Add_Peer i) w)) = peers w @ [peer_addr i]) \<and>
     (\<forall>r. (\<forall>i. r \<noteq> Now_Add_Peer i) \<longrightarrow> keeps peers (p_wifi P r)) \<and>
     (\<forall>t. keeps peers (p_sem_take P t)) \<and> keeps_world peers (p_sem_give P)"

text \<open>
  \<open>sent w\<close> is the list of frames the driver has accepted, in order.
\<close>

definition sent_laws :: "'w platform \<Rightarrow> ('w \<Rightarrow> u8 list list) \<Rightarrow> bool" where
  "sent_laws P sent \<longleftrightarrow>
     (\<forall>a d w. sent (snd (p_now_send P a d w)) =
        (if fst (p_now_send P a d w) = ESP_OK then sent w @ [d] else sent w)) \<and>
     (\<forall>t. keeps sent (p_sem_take P t)) \<and> keeps_world sent (p_sem_give P) \<and>
     (\<forall>e t. keeps sent (p_queue_send P e t)) \<and> keeps sent (p_queue_receive P) \<and>
     neutral_calls P sent"

text \<open>
  \<open>clock w\<close> is the microsecond timer, in a world where it has not reached its last value (which
  takes 584942 years): it never goes back, a delay lets it advance, and the busy wait lasts at
  least the time asked for. \<open>ticking\<close> adds that two readings are never the same.
\<close>

definition never_back :: "('w \<Rightarrow> u64) \<Rightarrow> ('w \<Rightarrow> 'w) \<Rightarrow> bool" where
  "never_back clock f \<longleftrightarrow> (\<forall>w. clock w \<le> clock (f w))"

definition clock_laws :: "'w platform \<Rightarrow> ('w \<Rightarrow> u64) \<Rightarrow> bool" where
  "clock_laws P clock \<longleftrightarrow>
     (\<forall>w. fst (p_timer P w) = clock w) \<and> never_back clock (\<lambda>w. snd (p_timer P w)) \<and>
     (\<forall>t. never_back clock (p_delay P t)) \<and>
     (\<forall>t w. clock w < - 1 \<longrightarrow> clock w < clock (p_delay P t w)) \<and>
     (\<forall>t. never_back clock (p_delay_us P t)) \<and>
     (\<forall>t w. min (2 ^ 64 - 1) (unat (clock w) + unat t) \<le> unat (clock (p_delay_us P t w))) \<and>
     (\<forall>t. never_back clock (\<lambda>w. snd (p_sem_take P t w))) \<and> never_back clock (p_sem_give P) \<and>
     (\<forall>a d. never_back clock (\<lambda>w. snd (p_now_send P a d w))) \<and> never_back clock (p_yield P)"

definition ticking :: "'w platform \<Rightarrow> ('w \<Rightarrow> u64) \<Rightarrow> bool" where
  "ticking P clock \<longleftrightarrow> (\<forall>w. clock w < - 1 \<longrightarrow> clock w < clock (snd (p_timer P w)))"

section \<open>A reference platform\<close>

record ref_world =
  rw_avail :: nat
  rw_pending :: nat
  rw_queue :: "event list"
  rw_notified :: nat
  rw_clock :: u64
  rw_peers :: "u8 list list"
  rw_wifi_log :: "wifi_request list"
  rw_sent :: "u8 list list"
  rw_in :: "string list"
  rw_out :: "json list"

definition ref_world0 :: ref_world where
  "ref_world0 = \<lparr>rw_avail = 1, rw_pending = 0, rw_queue = [], rw_notified = 0, rw_clock = 0,
     rw_peers = [], rw_wifi_log = [], rw_sent = [], rw_in = [], rw_out = []\<rparr>"

text \<open>
  Time advances by one microsecond per reading; every driver call succeeds; a frame is accepted
  and logged.
\<close>

definition ref_advance :: "nat \<Rightarrow> ref_world \<Rightarrow> ref_world" where
  "ref_advance n w = w\<lparr>rw_clock :=
     if unat (rw_clock w) + n < 2 ^ 64 then of_nat (unat (rw_clock w) + n) else - 1\<rparr>"

definition ref_platform :: "ref_world platform" where
  "ref_platform = \<lparr>
     p_ms_to_ticks = of_nat,
     p_sem_create = (\<lambda>mx n w. w\<lparr>rw_avail := n\<rparr>),
     p_sem_take = (\<lambda>t w. if rw_avail w > 0 then (True, w\<lparr>rw_avail := rw_avail w - 1\<rparr>) else (False, w)),
     p_sem_give = (\<lambda>w. if rw_avail w < HARNESS_MAX_TX_WINDOW then w\<lparr>rw_avail := rw_avail w + 1\<rparr> else w),
     p_queue_create = (\<lambda>n w. w\<lparr>rw_queue := []\<rparr>),
     p_queue_send = (\<lambda>e t w. if length (rw_queue w) < 64 then (True, w\<lparr>rw_queue := rw_queue w @ [e]\<rparr>)
                             else (False, w)),
     p_queue_receive = (\<lambda>w. case rw_queue w of [] \<Rightarrow> (None, w)
                             | e # es \<Rightarrow> (Some e, w\<lparr>rw_queue := es\<rparr>)),
     p_current_task = (\<lambda>w. (1, w)),
     p_notify_give = (\<lambda>n w. w\<lparr>rw_notified := rw_notified w + 1\<rparr>),
     p_notify_take = (\<lambda>t w. (rw_notified w > 0, w\<lparr>rw_notified := 0\<rparr>)),
     p_task_create = (\<lambda>n w. (True, w)),
     p_tick_count = (\<lambda>w. (ucast (rw_clock w), ref_advance 1 w)),
     p_delay = (\<lambda>t w. ref_advance (1 + 1000 * unat t) w),
     p_delay_us = (\<lambda>t w. ref_advance (unat t) w),
     p_yield = (\<lambda>w. w),
     p_timer = (\<lambda>w. (rw_clock w, ref_advance 1 w)),
     p_now_send = (\<lambda>a d w. (ESP_OK, w\<lparr>rw_pending := rw_pending w + 1, rw_sent := rw_sent w @ [d]\<rparr>)),
     p_wifi = (\<lambda>r w. (ESP_OK, w\<lparr>rw_wifi_log := rw_wifi_log w @ [r],
                 rw_peers := rw_peers w @ (case r of Now_Add_Peer i \<Rightarrow> [peer_addr i] | _ \<Rightarrow> [])\<rparr>)),
     p_fetch_peer = (\<lambda>w. (case rw_peers w of [] \<Rightarrow> None | a # _ \<Rightarrow> Some a, w)),
     p_del_peer = (\<lambda>a w. w\<lparr>rw_peers := removeAll a (rw_peers w)\<rparr>),
     p_random = (\<lambda>w. (7, w)),
     p_read_mac = (\<lambda>w. (replicate 6 0, w)),
     p_read_line = (\<lambda>w. case rw_in w of [] \<Rightarrow> (None, w) | l # ls \<Rightarrow> (Some l, w\<lparr>rw_in := ls\<rparr>)),
     p_clear_input = (\<lambda>w. w),
     p_send_json = (\<lambda>d w. w\<lparr>rw_out := rw_out w @ [d]\<rparr>),
     p_idf_version = ''v6.1'',
     p_err_name = (\<lambda>e. ''ESP_ERR'')\<rparr>"

lemma ref_advance_simps [simp]:
  "rw_avail (ref_advance n w) = rw_avail w" "rw_pending (ref_advance n w) = rw_pending w"
  "rw_queue (ref_advance n w) = rw_queue w" "rw_notified (ref_advance n w) = rw_notified w"
  "rw_peers (ref_advance n w) = rw_peers w" "rw_sent (ref_advance n w) = rw_sent w"
  by (simp_all add: ref_advance_def)

lemma ref_advance_clock:
  "unat (rw_clock (ref_advance n w)) =
     (if unat (rw_clock w) + n < 2 ^ 64 then unat (rw_clock w) + n else 2 ^ 64 - 1)"
  by (simp add: ref_advance_def unat_u64_max unat_of_nat del: of_nat_add)

lemma ref_advance_le: "rw_clock w \<le> rw_clock (ref_advance n w)"
proof -
  have "unat (rw_clock w) < 2 ^ 64" using unsigned_less [of "rw_clock w"] by simp
  then show ?thesis by (simp add: word_le_nat_alt ref_advance_clock)
qed

lemma ref_advance_less:
  assumes "rw_clock w < - 1" "0 < n"
  shows "rw_clock w < rw_clock (ref_advance n w)"
proof -
  have "unat (rw_clock w) < 2 ^ 64 - 1"
    using assms(1) by (simp add: word_less_nat_alt unat_u64_max)
  then show ?thesis using assms(2) by (simp add: word_less_nat_alt ref_advance_clock)
qed

lemma ref_slot_laws: "slot_laws ref_platform rw_avail rw_pending"
  by (auto simp: slot_laws_def slots_def keeps_def keeps_world_def neutral_calls_def
      ref_platform_def split: list.split)

lemma ref_queue_laws: "queue_laws ref_platform rw_queue"
  by (auto simp: queue_laws_def keeps_def keeps_world_def neutral_calls_def ref_platform_def
      split: list.split)

lemma ref_peer_laws: "peer_laws ref_platform rw_peers"
  by (auto simp: peer_laws_def keeps_def keeps_world_def ref_platform_def
      split: list.split wifi_request.split)

lemma ref_sent_laws: "sent_laws ref_platform rw_sent"
  by (auto simp: sent_laws_def keeps_def keeps_world_def neutral_calls_def ref_platform_def
      split: list.split)

lemma ref_clock_laws: "clock_laws ref_platform rw_clock"
  by (simp add: clock_laws_def never_back_def ref_platform_def ref_advance_le ref_advance_less
      ref_advance_clock min_def)

lemma ref_ticking: "ticking ref_platform rw_clock"
  by (simp add: ticking_def ref_platform_def ref_advance_less)

end
