(* ===== verification/Radio.thy ===== *)
theory Radio
  imports Events Platform_Laws
begin

text \<open>
  \<^verbatim>\<open>radio.c\<close>: the transmission slots (a counting semaphore of \<open>current_tx_window\<close> tokens), the
  send and receive callbacks, the start-up sequence and the per-run radio configuration.
\<close>

section \<open>Callbacks\<close>

text \<open>\<open>success\<close> is \<^verbatim>\<open>status == ESP_NOW_SEND_SUCCESS\<close>.\<close>

definition tx_callback :: "'w platform \<Rightarrow> bool \<Rightarrow> 'w fw \<Rightarrow> 'w fw" where
  "tx_callback P success s = exec (p_sem_give P) (receiver_post_tx P success s)"

text \<open>
  \<open>info\<close> is \<open>None\<close> for a null pointer, \<open>Some None\<close> when \<^verbatim>\<open>info->rx_ctrl\<close> is null, and else carries
  the RSSI; \<open>len\<close> is the \<^verbatim>\<open>int\<close> the driver passes.
\<close>

definition rx_callback ::
  "'w platform \<Rightarrow> u8 option option \<Rightarrow> u8 list option \<Rightarrow> int \<Rightarrow> 'w fw \<Rightarrow> 'w fw" where
  "rx_callback P info data len s =
     (case (info, data) of
        (Some (Some rssi), Some d) \<Rightarrow>
          if len < 0 \<or> len > int HARNESS_MAX_PACKET_SIZE then receiver_post_drop P False True s
          else let (now, s) = call (p_timer P) s
               in receiver_post_rx P (take (nat len) d) rssi now s
      | _ \<Rightarrow> receiver_post_drop P False True s)"

section \<open>Start-up\<close>

text \<open>Calls in order, up to the first that does not return \<^verbatim>\<open>ESP_OK\<close>.\<close>

fun wifi_calls :: "'w platform \<Rightarrow> wifi_request list \<Rightarrow> 'w fw \<Rightarrow> esp_err \<times> 'w fw" where
  "wifi_calls P [] s = (ESP_OK, s)"
| "wifi_calls P (r # rs) s =
     (let (e, s) = call (p_wifi P r) s in if e \<noteq> ESP_OK then (e, s) else wifi_calls P rs s)"

definition radio_init :: "'w platform \<Rightarrow> 'w fw \<Rightarrow> esp_err \<times> 'w fw" where
  "radio_init P s =
     (let (e, s) = call (p_wifi P Netif_Init) s in
      if e \<noteq> ESP_OK \<and> e \<noteq> ESP_ERR_INVALID_STATE then (e, s) else
      let (e, s) = call (p_wifi P Event_Loop_Create_Default) s in
      if e \<noteq> ESP_OK \<and> e \<noteq> ESP_ERR_INVALID_STATE then (e, s) else
      let (e, s) = wifi_calls P [Wifi_Init, Wifi_Set_Storage_Ram, Wifi_Set_Mode_Sta, Wifi_Start,
                                 Wifi_Set_Ps_None, Now_Init] s in
      if e \<noteq> ESP_OK then (e, s) else
      let s = exec (p_sem_create P HARNESS_MAX_TX_WINDOW 1) s
      in wifi_calls P [Now_Register_Send_Cb, Now_Register_Recv_Cb] s)"

section \<open>Rate table\<close>

definition make_rate_config :: "harness_config \<Rightarrow> rate_config option" where
  "make_rate_config config =
     (let name = phy_rate config in
      if name = ''1m'' \<and> \<not> band_5ghz config then
        Some \<lparr>phymode = WIFI_PHY_MODE_11B, rate = WIFI_PHY_RATE_1M_L, ersu = False, dcm = False\<rparr>
      else if name = ''6m'' \<or> name = ''24m'' \<or> name = ''54m'' then
        Some \<lparr>phymode = (if band_5ghz config then WIFI_PHY_MODE_11A else WIFI_PHY_MODE_11G),
              rate = (if name = ''6m'' then WIFI_PHY_RATE_6M
                      else if name = ''24m'' then WIFI_PHY_RATE_24M else WIFI_PHY_RATE_54M),
              ersu = False, dcm = False\<rparr>
      else if name = ''mcs0'' \<or> name = ''mcs7'' then
        Some \<lparr>phymode = WIFI_PHY_MODE_HT20,
              rate = (if name = ''mcs0'' then WIFI_PHY_RATE_MCS0_LGI else WIFI_PHY_RATE_MCS7_LGI),
              ersu = False, dcm = False\<rparr>
      else if name = ''he-mcs0'' \<or> name = ''he-mcs7'' then
        Some \<lparr>phymode = WIFI_PHY_MODE_HE20,
              rate = (if name = ''he-mcs0'' then WIFI_PHY_RATE_MCS0_LGI else WIFI_PHY_RATE_MCS7_LGI),
              ersu = False, dcm = False\<rparr>
      else None)"

section \<open>Transmission slots\<close>

definition radio_acquire_tx :: "'w platform \<Rightarrow> u32 \<Rightarrow> 'w fw \<Rightarrow> esp_err \<times> 'w fw" where
  "radio_acquire_tx P timeout_ms s =
     (let (ok, s) = call (p_sem_take P (p_ms_to_ticks P (unat timeout_ms))) s
      in (if ok then ESP_OK else ESP_ERR_TIMEOUT, s))"

definition radio_release_tx :: "'w platform \<Rightarrow> 'w fw \<Rightarrow> 'w fw" where
  "radio_release_tx P s = exec (p_sem_give P) s"

definition radio_send_acquired :: "'w platform \<Rightarrow> u8 list \<Rightarrow> 'w fw \<Rightarrow> esp_err \<times> 'w fw" where
  "radio_send_acquired P data s =
     (let (e, s) = call (p_now_send P (peer_mac (g_config s)) data) s
      in if e \<noteq> ESP_OK then (e, exec (p_sem_give P) s) else (e, s))"

definition radio_send :: "'w platform \<Rightarrow> u8 list \<Rightarrow> u32 \<Rightarrow> 'w fw \<Rightarrow> esp_err \<times> 'w fw" where
  "radio_send P data timeout_ms s =
     (let (e, s) = radio_acquire_tx P timeout_ms s
      in if e \<noteq> ESP_OK then (e, s) else radio_send_acquired P data s)"

text \<open>\<open>take_slots\<close> takes up to \<open>n\<close> tokens and says how many it got; \<open>give_slots\<close> gives \<open>n\<close> back.\<close>

fun take_slots :: "'w platform \<Rightarrow> u32 \<Rightarrow> nat \<Rightarrow> 'w fw \<Rightarrow> nat \<times> 'w fw" where
  "take_slots P ticks 0 s = (0, s)"
| "take_slots P ticks (Suc n) s =
     (let (ok, s) = call (p_sem_take P ticks) s in
      if \<not> ok then (0, s)
      else let (k, s) = take_slots P ticks n s in (Suc k, s))"

fun give_slots :: "'w platform \<Rightarrow> nat \<Rightarrow> 'w fw \<Rightarrow> 'w fw" where
  "give_slots P 0 s = s"
| "give_slots P (Suc n) s = give_slots P n (exec (p_sem_give P) s)"

definition radio_wait_idle :: "'w platform \<Rightarrow> u32 \<Rightarrow> 'w fw \<Rightarrow> esp_err \<times> 'w fw" where
  "radio_wait_idle P timeout_ms s =
     (let n = unat (current_tx_window s);
          (acquired, s) = take_slots P (p_ms_to_ticks P (unat timeout_ms)) n s
      in if acquired < n then (ESP_ERR_TIMEOUT, give_slots P acquired s)
         else (ESP_OK, give_slots P acquired s))"

text \<open>
  \<^verbatim>\<open>while (esp_now_fetch_peer(true, &existing) == ESP_OK) esp_now_del_peer(...)\<close>: how long it runs
  is up to the driver, so not returning is \<open>None\<close>.
\<close>

partial_function (option) delete_peers :: "'w platform \<Rightarrow> 'w \<Rightarrow> 'w option" where
  "delete_peers P w =
     (case fst (p_fetch_peer P w) of
        None \<Rightarrow> Some (snd (p_fetch_peer P w))
      | Some addr \<Rightarrow> delete_peers P (p_del_peer P addr (snd (p_fetch_peer P w))))"

definition configure_peer :: "harness_config \<Rightarrow> peer_info" where
  "configure_peer c = \<lparr>peer_addr = peer_mac c, peer_channel = channel c,
     peer_encrypt = encryption c,
     peer_lmk = (if encryption c then key c else replicate HARNESS_KEY_SIZE 0)\<rparr>"

text \<open>The requests of \<^verbatim>\<open>radio_configure\<close> up to the peer, in order.\<close>

definition configure_requests :: "harness_config \<Rightarrow> wifi_request list" where
  "configure_requests c =
     [Wifi_Set_Country_Code (country c),
      if band_5ghz c then Wifi_Set_Band_Mode_5G_Only else Wifi_Set_Band_Mode_2G_Only,
      Wifi_Set_Channel (channel c),
      Wifi_Set_Max_Tx_Power (tx_power_qdbm c),
      if power_save c then Wifi_Set_Ps_Min_Modem else Wifi_Set_Ps_None] @
     (if encryption c then [Now_Set_Pmk (key c)] else []) @ [Now_Add_Peer (configure_peer c)]"

text \<open>The new window: store it and give that many tokens.\<close>

definition resize_window :: "'w platform \<Rightarrow> harness_config \<Rightarrow> 'w fw \<Rightarrow> 'w fw" where
  "resize_window P config s = (let s = s\<lparr>current_tx_window := tx_window config\<rparr>
     in give_slots P (unat (current_tx_window s)) s)"

text \<open>
  What follows the resize: the peers are deleted and the requests made, which leaves the window and
  the slots alone.
\<close>

definition configure_driver ::
  "'w platform \<Rightarrow> harness_config \<Rightarrow> 'w fw \<Rightarrow> (esp_err \<times> 'w fw) option" where
  "configure_driver P config s =
     (case delete_peers P (world s) of
        None \<Rightarrow> None
      | Some w \<Rightarrow>
          let (e, s) = wifi_calls P (configure_requests config) (s\<lparr>world := w\<rparr>) in
          if e \<noteq> ESP_OK then Some (e, s) else
          case make_rate_config config of
            None \<Rightarrow> Some (ESP_ERR_NOT_SUPPORTED, s)
          | Some r \<Rightarrow> Some (call (p_wifi P (Now_Set_Peer_Rate_Config (peer_mac config) r)) s))"

definition radio_configure ::
  "'w platform \<Rightarrow> harness_config \<Rightarrow> 'w fw \<Rightarrow> (esp_err \<times> 'w fw) option" where
  "radio_configure P config s =
     (let (e, s) = radio_wait_idle P 1000 s in
      if e \<noteq> ESP_OK then Some (e, s) else
      let (taken, s) = take_slots P 0 (unat (current_tx_window s)) s in
      if taken < unat (current_tx_window s) then Some (ESP_ERR_INVALID_STATE, s) else
      configure_driver P config (resize_window P config s))"

section \<open>Frame facts\<close>

lemma take_slots_frame [frame_simps]:
  "g_config (snd (take_slots P t n s)) = g_config s"
  "g_state (snd (take_slots P t n s)) = g_state s"
  "g_metrics (snd (take_slots P t n s)) = g_metrics s"
  "current_tx_window (snd (take_slots P t n s)) = current_tx_window s"
  "queue_ready (snd (take_slots P t n s)) = queue_ready s"
  "gen_handle (snd (take_slots P t n s)) = gen_handle s"
  by (induction n arbitrary: s) (simp_all add: Let_def case_prod_unfold)

lemma give_slots_frame [frame_simps]:
  "g_config (give_slots P n s) = g_config s" "g_state (give_slots P n s) = g_state s"
  "g_metrics (give_slots P n s) = g_metrics s"
  "current_tx_window (give_slots P n s) = current_tx_window s"
  "queue_ready (give_slots P n s) = queue_ready s" "gen_handle (give_slots P n s) = gen_handle s"
  by (induction n arbitrary: s) simp_all

lemma wifi_calls_frame [frame_simps]:
  "g_config (snd (wifi_calls P rs s)) = g_config s"
  "g_state (snd (wifi_calls P rs s)) = g_state s"
  "g_metrics (snd (wifi_calls P rs s)) = g_metrics s"
  "current_tx_window (snd (wifi_calls P rs s)) = current_tx_window s"
  "queue_ready (snd (wifi_calls P rs s)) = queue_ready s"
  "gen_handle (snd (wifi_calls P rs s)) = gen_handle s"
  by (induction rs arbitrary: s) (simp_all add: Let_def case_prod_unfold)

lemma radio_frame [frame_simps]:
  "g_metrics (snd (radio_acquire_tx P t s)) = g_metrics s"
  "g_config (snd (radio_acquire_tx P t s)) = g_config s"
  "g_state (snd (radio_acquire_tx P t s)) = g_state s"
  "current_tx_window (snd (radio_acquire_tx P t s)) = current_tx_window s"
  "gen_handle (snd (radio_acquire_tx P t s)) = gen_handle s"
  "queue_ready (snd (radio_acquire_tx P t s)) = queue_ready s"
  "g_metrics (snd (radio_send_acquired P d s)) = g_metrics s"
  "g_config (snd (radio_send_acquired P d s)) = g_config s"
  "g_state (snd (radio_send_acquired P d s)) = g_state s"
  "current_tx_window (snd (radio_send_acquired P d s)) = current_tx_window s"
  "gen_handle (snd (radio_send_acquired P d s)) = gen_handle s"
  "queue_ready (snd (radio_send_acquired P d s)) = queue_ready s"
  "g_metrics (radio_release_tx P s) = g_metrics s"
  "g_config (radio_release_tx P s) = g_config s"
  "g_state (radio_release_tx P s) = g_state s"
  "current_tx_window (radio_release_tx P s) = current_tx_window s"
  "gen_handle (radio_release_tx P s) = gen_handle s"
  "queue_ready (radio_release_tx P s) = queue_ready s"
  "g_metrics (snd (radio_wait_idle P t s)) = g_metrics s"
  "g_config (snd (radio_wait_idle P t s)) = g_config s"
  "g_state (snd (radio_wait_idle P t s)) = g_state s"
  "current_tx_window (snd (radio_wait_idle P t s)) = current_tx_window s"
  "gen_handle (snd (radio_wait_idle P t s)) = gen_handle s"
  "queue_ready (snd (radio_wait_idle P t s)) = queue_ready s"
  by (simp_all add: radio_acquire_tx_def radio_send_acquired_def radio_release_tx_def
      radio_wait_idle_def Let_def case_prod_unfold frame_simps)

section \<open>Slot accounting\<close>

lemma slot_take:
  "slot_laws P avail pending \<Longrightarrow> slots avail pending w =
     slots avail pending (snd (p_sem_take P t w)) + of_bool (fst (p_sem_take P t w))"
  by (simp add: slot_laws_def)

lemma slot_give:
  assumes "slot_laws P avail pending" "slots avail pending w < HARNESS_MAX_TX_WINDOW"
  shows "slots avail pending (p_sem_give P w) = slots avail pending w + 1"
    "pending (p_sem_give P w) = pending w"
  using assms by (simp_all add: slot_laws_def slots_def)

lemma slot_send:
  "slot_laws P avail pending \<Longrightarrow> slots avail pending (snd (p_now_send P a d w)) =
     slots avail pending w + of_bool (fst (p_now_send P a d w) = ESP_OK)"
  by (simp add: slot_laws_def)

lemma slot_neutral:
  assumes "slot_laws P avail pending"
  shows "slots avail pending (snd (p_queue_send P e t w)) = slots avail pending w"
    "slots avail pending (snd (p_queue_receive P w)) = slots avail pending w"
    "slots avail pending (snd (p_wifi P r w)) = slots avail pending w"
    "slots avail pending (snd (p_fetch_peer P w)) = slots avail pending w"
    "slots avail pending (p_del_peer P a w) = slots avail pending w"
    "slots avail pending (snd (p_current_task P w)) = slots avail pending w"
    "slots avail pending (p_notify_give P k w) = slots avail pending w"
    "slots avail pending (snd (p_notify_take P t w)) = slots avail pending w"
    "slots avail pending (snd (p_task_create P nm w)) = slots avail pending w"
    "slots avail pending (snd (p_tick_count P w)) = slots avail pending w"
    "slots avail pending (p_delay P t w) = slots avail pending w"
    "slots avail pending (p_delay_us P t w) = slots avail pending w"
    "slots avail pending (p_yield P w) = slots avail pending w"
    "slots avail pending (snd (p_timer P w)) = slots avail pending w"
    "slots avail pending (snd (p_random P w)) = slots avail pending w"
    "slots avail pending (snd (p_read_mac P w)) = slots avail pending w"
    "slots avail pending (snd (p_read_line P w)) = slots avail pending w"
    "slots avail pending (p_clear_input P w) = slots avail pending w"
    "slots avail pending (p_send_json P j w) = slots avail pending w"
  using assms by (simp_all add: slot_laws_def neutral_calls_def keeps_def keeps_world_def)

lemma take_slots_bound: "fst (take_slots P t n s) \<le> n"
  by (induction n arbitrary: s) (simp_all add: Let_def case_prod_unfold)

lemma take_slots_account:
  assumes "slot_laws P avail pending"
  shows "slots avail pending (world s) =
      slots avail pending (world (snd (take_slots P t n s))) + fst (take_slots P t n s)"
proof (induction n arbitrary: s)
  case (Suc n)
  let ?s = "snd (call (p_sem_take P t) s)"
  show ?case
    using Suc.IH [of ?s] slot_take [OF assms, of "world s" t]
    by (cases "fst (p_sem_take P t (world s))") (simp_all add: Let_def case_prod_unfold)
qed simp

lemma give_slots_account:
  assumes "slot_laws P avail pending"
    and "slots avail pending (world s) + n \<le> HARNESS_MAX_TX_WINDOW"
  shows "slots avail pending (world (give_slots P n s)) = slots avail pending (world s) + n \<and>
    pending (world (give_slots P n s)) = pending (world s)"
  using assms(2)
proof (induction n arbitrary: s)
  case (Suc n)
  have lt: "slots avail pending (world s) < HARNESS_MAX_TX_WINDOW" using Suc.prems by simp
  then show ?case
    using Suc.IH [of "exec (p_sem_give P) s"] Suc.prems slot_give [OF assms(1) lt] by simp
qed simp

text \<open>
  \<open>slots_ok\<close>: outside the handlers, every token of the window is in the semaphore or owed by a
  pending callback, and the window is at most 32.
\<close>

definition slots_ok :: "('w \<Rightarrow> nat) \<Rightarrow> ('w \<Rightarrow> nat) \<Rightarrow> 'w fw \<Rightarrow> bool" where
  "slots_ok avail pending s \<longleftrightarrow>
     slots avail pending (world s) = unat (current_tx_window s) \<and>
     unat (current_tx_window s) \<le> HARNESS_MAX_TX_WINDOW"

lemma radio_wait_idle_account:
  assumes L: "slot_laws P avail pending" and ok: "slots_ok avail pending s"
  shows "slots_ok avail pending (snd (radio_wait_idle P t s))"
    "fst (radio_wait_idle P t s) = ESP_OK \<Longrightarrow> pending (world (snd (radio_wait_idle P t s))) = 0"
proof -
  let ?n = "unat (current_tx_window s)"
  let ?k = "fst (take_slots P (p_ms_to_ticks P (unat t)) ?n s)"
  let ?s = "snd (take_slots P (p_ms_to_ticks P (unat t)) ?n s)"
  have r: "radio_wait_idle P t s = (if ?k < ?n then ESP_ERR_TIMEOUT else ESP_OK, give_slots P ?k ?s)"
    by (simp add: radio_wait_idle_def Let_def case_prod_unfold)
  have k: "slots avail pending (world ?s) + ?k = ?n" "?k \<le> ?n" "?n \<le> HARNESS_MAX_TX_WINDOW"
    using take_slots_account [OF L, where s = s and t = "p_ms_to_ticks P (unat t)" and n = ?n]
      take_slots_bound [of P "p_ms_to_ticks P (unat t)" ?n s] ok
    by (simp_all add: slots_ok_def)
  have g: "slots avail pending (world (give_slots P ?k ?s)) = slots avail pending (world ?s) + ?k"
    "pending (world (give_slots P ?k ?s)) = pending (world ?s)"
    using give_slots_account [OF L, where s = ?s and n = ?k] k by simp_all
  show "slots_ok avail pending (snd (radio_wait_idle P t s))"
    using k g ok by (simp add: r slots_ok_def frame_simps)
  show "pending (world (snd (radio_wait_idle P t s))) = 0"
    if "fst (radio_wait_idle P t s) = ESP_OK"
  proof -
    have "?k = ?n" using that k by (auto simp: r split: if_splits)
    then have "slots avail pending (world ?s) = 0" using k by simp
    then show ?thesis using g by (simp add: r slots_def)
  qed
qed

section \<open>Sending\<close>

lemma radio_acquire_tx_slots:
  assumes "slot_laws P avail pending"
  shows "slots avail pending (world s) = slots avail pending (world (snd (radio_acquire_tx P t s))) +
      of_bool (fst (radio_acquire_tx P t s) = ESP_OK)"
  using slot_take [OF assms, of "world s" "p_ms_to_ticks P (unat t)"]
  by (simp add: radio_acquire_tx_def Let_def case_prod_unfold)

lemma radio_send_acquired_slots:
  assumes "slot_laws P avail pending" and "slots avail pending (world s) < HARNESS_MAX_TX_WINDOW"
  shows "slots avail pending (world (snd (radio_send_acquired P d s))) =
    slots avail pending (world s) + 1"
proof -
  let ?w = "snd (p_now_send P (peer_mac (g_config s)) d (world s))"
  have w: "slots avail pending ?w = slots avail pending (world s) +
      of_bool (fst (p_now_send P (peer_mac (g_config s)) d (world s)) = ESP_OK)"
    by (rule slot_send [OF assms(1)])
  show ?thesis
    using w slot_give(1) [OF assms(1), of ?w] assms(2)
    by (simp add: radio_send_acquired_def Let_def case_prod_unfold)
qed

lemma radio_release_tx_slots:
  assumes "slot_laws P avail pending" and "slots avail pending (world s) < HARNESS_MAX_TX_WINDOW"
  shows "slots avail pending (world (radio_release_tx P s)) = slots avail pending (world s) + 1"
  using slot_give(1) [OF assms] by (simp add: radio_release_tx_def)

lemma radio_send_slots:
  assumes "slot_laws P avail pending" and "slots_ok avail pending s"
  shows "slots_ok avail pending (snd (radio_send P d t s))"
proof -
  let ?s = "snd (radio_acquire_tx P t s)"
  have a: "slots avail pending (world s) = slots avail pending (world ?s) +
      of_bool (fst (radio_acquire_tx P t s) = ESP_OK)"
    by (rule radio_acquire_tx_slots [OF assms(1)])
  then show ?thesis
    using assms(2) radio_send_acquired_slots [OF assms(1), of ?s d]
    by (cases "fst (radio_acquire_tx P t s) = ESP_OK")
       (simp_all add: slots_ok_def radio_send_def Let_def case_prod_unfold frame_simps)
qed

section \<open>Configuration\<close>

lemma delete_peers_total:
  assumes "peer_laws P peers" and "keeps v (p_fetch_peer P)" and "\<And>a. keeps_world v (p_del_peer P a)"
  shows "\<exists>w'. delete_peers P w = Some w' \<and> peers w' = [] \<and> v w' = v w"
proof (induction "length (peers w)" arbitrary: w rule: less_induct)
  case less
  have f: "fst (p_fetch_peer P w) = (case peers w of [] \<Rightarrow> None | a # _ \<Rightarrow> Some a)"
    "peers (snd (p_fetch_peer P w)) = peers w"
    using assms(1) by (simp_all add: peer_laws_def keeps_def)
  have v: "v (snd (p_fetch_peer P w)) = v w" using assms(2) by (simp add: keeps_def)
  show ?case
  proof (cases "peers w")
    case Nil
    then show ?thesis using f v by (simp add: delete_peers.simps [of P w])
  next
    case (Cons a as)
    let ?w = "p_del_peer P a (snd (p_fetch_peer P w))"
    have "peers ?w = removeAll a as" using assms(1) f Cons by (simp add: peer_laws_def)
    moreover have "v ?w = v w" using v assms(3) by (simp add: keeps_world_def)
    moreover have "delete_peers P w = delete_peers P ?w"
      using f Cons by (simp add: delete_peers.simps [of P w])
    ultimately show ?thesis
      using less [of ?w] Cons by (simp add: le_imp_less_Suc)
  qed
qed

lemma wifi_calls_keeps:
  assumes "\<And>r. r \<in> set rs \<Longrightarrow> keeps v (p_wifi P r)"
  shows "v (world (snd (wifi_calls P rs s))) = v (world s)"
  using assms by (induction rs arbitrary: s) (simp_all add: Let_def case_prod_unfold keeps_def)

lemma wifi_calls_append:
  "wifi_calls P (xs @ ys) s =
    (if fst (wifi_calls P xs s) = ESP_OK then wifi_calls P ys (snd (wifi_calls P xs s))
     else wifi_calls P xs s)"
  by (induction xs arbitrary: s) (simp_all add: Let_def case_prod_unfold)

lemma configure_requests_split:
  "\<exists>rs. configure_requests c = rs @ [Now_Add_Peer (configure_peer c)] \<and>
     (\<forall>r \<in> set rs. \<forall>i. r \<noteq> Now_Add_Peer i)"
  by (rule exI [of _ "butlast (configure_requests c)"])
     (auto simp: configure_requests_def butlast_append split: if_splits)

lemma configure_requests_peers:
  assumes L: "peer_laws P peers" and ok: "fst (wifi_calls P (configure_requests c) s) = ESP_OK"
  shows "peers (world (snd (wifi_calls P (configure_requests c) s))) = peers (world s) @ [peer_mac c]"
proof -
  obtain rs where rs: "configure_requests c = rs @ [Now_Add_Peer (configure_peer c)]"
    and no: "\<forall>r \<in> set rs. \<forall>i. r \<noteq> Now_Add_Peer i"
    using configure_requests_split by blast
  have "peers (world (snd (wifi_calls P rs s))) = peers (world s)"
    by (rule wifi_calls_keeps) (use L no in \<open>auto simp: peer_laws_def\<close>)
  then show ?thesis
    using ok L by (auto simp: rs wifi_calls_append Let_def case_prod_unfold peer_laws_def
        configure_peer_def split: if_splits)
qed

text \<open>After the fence no callback is owed, so taking the whole window without waiting succeeds.\<close>

lemma take_slots_all:
  assumes L: "slot_laws P avail pending" and "pending (world s) = 0" and "n \<le> avail (world s)"
  shows "fst (take_slots P 0 n s) = n \<and> pending (world (snd (take_slots P 0 n s))) = 0"
  using assms(2,3)
proof (induction n arbitrary: s)
  case (Suc n)
  let ?s = "snd (call (p_sem_take P 0) s)"
  have t: "fst (p_sem_take P 0 (world s))" "pending (world ?s) = 0"
    using L Suc.prems by (auto simp: slot_laws_def dest: le_zero_eq [THEN iffD1] spec [of _ "world s"])
  then have "n \<le> avail (world ?s)"
    using slot_take [OF L, of "world s" 0] Suc.prems by (simp add: slots_def)
  then show ?case using Suc.IH [of ?s] t by (simp add: Let_def case_prod_unfold)
qed simp

lemma resize_window_slots:
  assumes L: "slot_laws P avail pending" and ok: "slots_ok avail pending s"
    and "pending (world s) = 0" and W: "unat (tx_window config) \<le> HARNESS_MAX_TX_WINDOW"
  defines "n \<equiv> unat (current_tx_window s)"
  shows "fst (take_slots P 0 n s) = n"
    and "slots_ok avail pending (resize_window P config (snd (take_slots P 0 n s)))"
    and "current_tx_window (resize_window P config (snd (take_slots P 0 n s))) = tx_window config"
proof -
  let ?s = "snd (take_slots P 0 n s)"
  have n: "n \<le> avail (world s)" using ok assms(3) by (simp add: slots_ok_def slots_def n_def)
  show f: "fst (take_slots P 0 n s) = n" using take_slots_all [OF L assms(3) n] by simp
  have z: "slots avail pending (world ?s) = 0"
    using take_slots_account [OF L, where s = s and t = 0 and n = n] ok f
    by (simp add: slots_ok_def n_def)
  show "current_tx_window (resize_window P config ?s) = tx_window config"
    by (simp add: resize_window_def Let_def frame_simps)
  then show "slots_ok avail pending (resize_window P config ?s)"
    using give_slots_account [OF L, where s = "?s\<lparr>current_tx_window := tx_window config\<rparr>" and
        n = "unat (tx_window config)"] z W
    by (simp add: slots_ok_def resize_window_def Let_def)
qed

lemma configure_driver_result:
  assumes S: "slot_laws P avail pending" and L: "peer_laws P peers"
  shows "\<exists>r. configure_driver P config s = Some r \<and>
     slots avail pending (world (snd r)) = slots avail pending (world s) \<and>
     current_tx_window (snd r) = current_tx_window s \<and>
     (fst r = ESP_OK \<longrightarrow> peers (world (snd r)) = [peer_mac config])"
proof -
  have k: "keeps (slots avail pending) (p_fetch_peer P)"
    "\<And>a. keeps_world (slots avail pending) (p_del_peer P a)"
    "\<And>r. keeps (slots avail pending) (p_wifi P r)"
    using S by (simp_all add: slot_laws_def)
  obtain w where w: "delete_peers P (world s) = Some w" "peers w = []"
    "slots avail pending w = slots avail pending (world s)"
    using delete_peers_total [OF L k(1,2)] by blast
  let ?s = "s\<lparr>world := w\<rparr>" and ?rs = "configure_requests config"
  have s: "slots avail pending (world (snd (wifi_calls P ?rs ?s))) = slots avail pending (world s)"
    using wifi_calls_keeps [of ?rs "slots avail pending" P ?s] k(3) w(3) by simp
  have p: "peers (world (snd (wifi_calls P ?rs ?s))) = [peer_mac config]"
    if "fst (wifi_calls P ?rs ?s) = ESP_OK"
    using configure_requests_peers [OF L that] w(2) by simp
  have r: "slots avail pending (snd (p_wifi P r x)) = slots avail pending x" for r x
    using k(3) by (simp add: keeps_def)
  have q: "peers (snd (p_wifi P (Now_Set_Peer_Rate_Config a c) x)) = peers x" for a c x
    using L by (simp add: peer_laws_def keeps_def)
  show ?thesis
    using w(1) s p r q
    by (cases "make_rate_config config"; cases "fst (wifi_calls P ?rs ?s) = ESP_OK")
       (simp_all add: configure_driver_def Let_def case_prod_unfold frame_simps)
qed

lemma radio_configure_result:
  assumes S: "slot_laws P avail pending" and L: "peer_laws P peers"
    and ok: "slots_ok avail pending s" and W: "unat (tx_window config) \<le> HARNESS_MAX_TX_WINDOW"
  shows "\<exists>r. radio_configure P config s = Some r \<and> slots_ok avail pending (snd r) \<and>
     (fst r = ESP_OK \<longrightarrow> current_tx_window (snd r) = tx_window config \<and>
                         peers (world (snd r)) = [peer_mac config])"
proof -
  let ?s = "snd (radio_wait_idle P 1000 s)"
  let ?n = "unat (current_tx_window ?s)"
  let ?s2 = "resize_window P config (snd (take_slots P 0 ?n ?s))"
  note i = radio_wait_idle_account [OF S ok, where t = 1000]
  show ?thesis
  proof (cases "fst (radio_wait_idle P 1000 s) = ESP_OK")
    case False
    then show ?thesis using i by (simp add: radio_configure_def Let_def case_prod_unfold)
  next
    case True
    note z = resize_window_slots [OF S i(1) i(2) [OF True] W]
    have "radio_configure P config s = configure_driver P config ?s2"
      using True z(1)
      by (simp add: radio_configure_def Let_def case_prod_unfold frame_simps)
    then show ?thesis
      using configure_driver_result [OF S L, of config ?s2] z(2,3) by (auto simp: slots_ok_def)
  qed
qed

lemma radio_configure_frame:
  assumes "radio_configure P config s = Some r"
  shows "g_config (snd r) = g_config s" "g_state (snd r) = g_state s"
    "g_metrics (snd r) = g_metrics s" "queue_ready (snd r) = queue_ready s"
    "gen_handle (snd r) = gen_handle s"
  using assms
  by (auto simp: radio_configure_def configure_driver_def resize_window_def Let_def
      case_prod_unfold frame_simps split: if_splits option.splits)

section \<open>The callbacks\<close>

text \<open>A completion is posted before its slot is returned, and pays back exactly that slot.\<close>

lemma tx_callback_slots:
  assumes L: "slot_laws P avail pending" and "slots avail pending (world s) < HARNESS_MAX_TX_WINDOW"
  shows "slots avail pending (world (tx_callback P b s)) = slots avail pending (world s) + 1"
  using slot_give(1) [OF L] slot_neutral(1) [OF L] assms(2)
  by (simp add: tx_callback_def receiver_post_tx_def Let_def case_prod_unfold)

text \<open>What the receive callback queues: a frame of at most 250 bytes, or a drop.\<close>

lemma rx_callback_cases:
  "(\<exists>rssi d. info = Some (Some rssi) \<and> data = Some d \<and> 0 \<le> len \<and>
      len \<le> int HARNESS_MAX_PACKET_SIZE \<and>
      rx_callback P info data len s = receiver_post_rx P (take (nat len) d) rssi
        (fst (p_timer P (world s))) (snd (call (p_timer P) s))) \<or>
   rx_callback P info data len s = receiver_post_drop P False True s"
  by (auto simp: rx_callback_def Let_def case_prod_unfold split: option.split)

lemma callback_frame [frame_simps]:
  "g_config (tx_callback P b s) = g_config s" "g_state (tx_callback P b s) = g_state s"
  "current_tx_window (tx_callback P b s) = current_tx_window s"
  "g_config (rx_callback P i d n s) = g_config s" "g_state (rx_callback P i d n s) = g_state s"
  "current_tx_window (rx_callback P i d n s) = current_tx_window s"
  by (simp_all add: tx_callback_def rx_callback_def Let_def case_prod_unfold frame_simps
      split: option.split)

end
