(* ===== verification/Receiver.thy ===== *)
theory Receiver
  imports Radio
begin

text \<open>
  \<^verbatim>\<open>receiver_task\<close> of \<^verbatim>\<open>receiver.c\<close>: \<open>receiver_step\<close> is one turn of its loop, which takes one event
  from the queue and handles it. A measured ping is answered by the echo responder with the same
  frame, its type byte rewritten.
\<close>

section \<open>The task\<close>

text \<open>The frame an \<^verbatim>\<open>EV_RX\<close> event carries, and the one the echo responder sends for it.\<close>

definition event_frame :: "event \<Rightarrow> u8 list" where
  "event_frame ev = take (unat (ev_len ev)) (ev_data ev)"

definition echo_event :: "event \<Rightarrow> event" where
  "echo_event ev = ev\<lparr>ev_data := (ev_data ev)[5 := PACKET_ECHO]\<rparr>"

definition echo_ping :: "'w platform \<Rightarrow> bench_header \<Rightarrow> event \<Rightarrow> 'w fw \<Rightarrow> 'w fw" where
  "echo_ping P header ev s =
     (let ev = echo_event ev;
          s = upd_metrics (metrics_tx_requested (h_stream_id header)) s;
          (e, s) = radio_acquire_tx P 100 s
      in if e = ESP_OK then
           let (dispatch_us, s) = call (p_timer P) s;
               (e, s) = radio_send_acquired P (event_frame ev) s;
               s = (if e = ESP_OK
                    then upd_metrics (metrics_tx_submitted (h_stream_id header) (ev_len ev) dispatch_us) s
                    else s)
           in if e \<noteq> ESP_OK then upd_metrics metrics_tx_api_failure s else s
         else upd_metrics metrics_tx_slot_timeout s)"

definition measurement_state :: "harness_state \<Rightarrow> bool" where
  "measurement_state st \<longleftrightarrow> st = STATE_ARMED \<or> st = STATE_RUNNING \<or> st = STATE_FINISHED"

definition zero_header :: bench_header where
  "zero_header = \<lparr>h_type = 0, h_flags = 0, h_run_id = 0, h_stream_id = 0, h_packet_len = 0,
     h_seq = 0, h_timestamp_us = 0\<rparr>"

definition receiver_frame :: "'w platform \<Rightarrow> event \<Rightarrow> 'w fw \<Rightarrow> 'w fw" where
  "receiver_frame P ev s =
     (case bench_decode (Some (ev_data ev)) (unat (ev_len ev)) (Some zero_header) of
        (True, Some header) \<Rightarrow>
          if h_run_id header \<noteq> run_id (g_config s) \<or> \<not> measurement_state (g_state s)
          then upd_metrics (metrics_drop True False) s
          else let s = upd_metrics (metrics_rx header (ev_rssi ev) (ev_at ev)) s
               in if role (g_config s) = ROLE_ECHO_RESPONDER \<and> h_type header = PACKET_PING
                  then echo_ping P header ev s else s
      | _ \<Rightarrow> upd_metrics (metrics_drop False True) s)"

definition receiver_event :: "'w platform \<Rightarrow> event \<Rightarrow> 'w fw \<Rightarrow> 'w fw" where
  "receiver_event P ev s =
     (case ev_type ev of
        EV_BARRIER \<Rightarrow> exec (p_notify_give P (ev_waiter ev)) s
      | EV_TX_OK \<Rightarrow> upd_metrics (metrics_tx_complete True) s
      | EV_TX_FAIL \<Rightarrow> upd_metrics (metrics_tx_complete False) s
      | EV_DROP \<Rightarrow> upd_metrics (metrics_drop False True) s
      | EV_RX \<Rightarrow> receiver_frame P ev s)"

definition receiver_step :: "'w platform \<Rightarrow> 'w fw \<Rightarrow> 'w fw" where
  "receiver_step P s =
     (let (ev, s) = call (p_queue_receive P) s
      in case ev of None \<Rightarrow> s | Some ev \<Rightarrow> receiver_event P ev s)"

definition receiver_start :: "'w platform \<Rightarrow> 'w fw \<Rightarrow> 'w fw" where
  "receiver_start P s =
     (let s = (exec (p_queue_create P RECEIVER_QUEUE_LENGTH) s)\<lparr>queue_ready := True\<rparr>
      in snd (call (p_task_create P ''bench_rx'') s))"

section \<open>Events and frames\<close>

text \<open>Every event the callbacks build holds a 250-byte array and a length inside it.\<close>

definition event_wf :: "event \<Rightarrow> bool" where
  "event_wf ev \<longleftrightarrow> length (ev_data ev) = HARNESS_MAX_PACKET_SIZE \<and>
     unat (ev_len ev) \<le> HARNESS_MAX_PACKET_SIZE"

lemma event_wf_zero [simp]: "event_wf (zero_event t)" "event_wf ((zero_event t)\<lparr>ev_waiter := w\<rparr>)"
  by (simp_all add: event_wf_def zero_event_def)

lemma event_wf_posted:
  assumes "length d \<le> HARNESS_MAX_PACKET_SIZE"
  shows "event_wf (rx_event d r t)" "event_frame (rx_event d r t) = d"
proof -
  have "unat (of_nat (length d) :: u16) = length d"
    using assms by (simp add: unat_of_nat HARNESS_MAX_PACKET_SIZE_def)
  then show "event_wf (rx_event d r t)" "event_frame (rx_event d r t) = d"
    using assms by (simp_all add: rx_event_def event_wf_def event_frame_def event_data_def)
qed

lemma bench_decode_take:
  assumes "n \<le> length b"
  shows "bench_decode (Some b) n (Some h0) = (True, Some h) \<longleftrightarrow> decode_frame (take n b) = Some h"
proof (cases "28 \<le> n")
  case True
  then have "get16 12 (take n b) = get16 12 b" "get16 14 (take n b) = get16 14 b"
    "get16 6 (take n b) = get16 6 b" "get32 0 (take n b) = get32 0 b" "get32 8 (take n b) = get32 8 b"
    "get32 16 (take n b) = get32 16 b" "get64 20 (take n b) = get64 20 b"
    by (simp_all add: get_take)
  then show ?thesis
    using True assms
    by (auto simp: decode_frame_iff bench_decode_def Let_def BENCH_HEADER_SIZE_def split: if_splits)
next
  case False
  then show ?thesis
    by (auto simp: decode_frame_iff bench_decode_def Let_def BENCH_HEADER_SIZE_def)
qed

lemma event_decode:
  assumes "event_wf ev"
  shows "bench_decode (Some (ev_data ev)) (unat (ev_len ev)) (Some zero_header) = (True, Some h) \<longleftrightarrow>
    decode_frame (event_frame ev) = Some h"
  using assms by (simp add: event_wf_def event_frame_def bench_decode_take)

lemma event_frame_echo: "event_frame (echo_event ev) = (event_frame ev)[5 := PACKET_ECHO]"
  by (simp add: event_frame_def echo_event_def take_update_swap)

text \<open>The branch a frame takes, as a function of what it decodes to.\<close>

lemma receiver_frame_eq:
  assumes "event_wf ev"
  shows "receiver_frame P ev s =
    (case decode_frame (event_frame ev) of
       None \<Rightarrow> upd_metrics (metrics_drop False True) s
     | Some header \<Rightarrow>
         if h_run_id header \<noteq> run_id (g_config s) \<or> \<not> measurement_state (g_state s)
         then upd_metrics (metrics_drop True False) s
         else let s = upd_metrics (metrics_rx header (ev_rssi ev) (ev_at ev)) s
              in if role (g_config s) = ROLE_ECHO_RESPONDER \<and> h_type header = PACKET_PING
                 then echo_ping P header ev s else s)"
proof (cases "decode_frame (event_frame ev)")
  case None
  obtain b x where r: "bench_decode (Some (ev_data ev)) (unat (ev_len ev)) (Some zero_header) = (b, x)"
    by fastforce
  moreover have "b \<Longrightarrow> x \<noteq> None"
    using bench_decode_out [of "Some (ev_data ev)" "unat (ev_len ev)" "Some zero_header"] r by simp
  ultimately have "\<not> b" using event_decode [OF assms] None by auto
  then show ?thesis using None r by (simp add: receiver_frame_def split: bool.split)
next
  case (Some h)
  then have "bench_decode (Some (ev_data ev)) (unat (ev_len ev)) (Some zero_header) = (True, Some h)"
    using event_decode [OF assms] by simp
  then show ?thesis using Some by (simp add: receiver_frame_def)
qed

section \<open>Invariants\<close>

definition fw_ok :: "('w \<Rightarrow> nat) \<Rightarrow> ('w \<Rightarrow> nat) \<Rightarrow> 'w fw \<Rightarrow> bool" where
  "fw_ok avail pending s \<longleftrightarrow> store_ok (g_metrics s) \<and> slots_ok avail pending s"

lemma fw_okI:
  "store_ok (g_metrics s) \<Longrightarrow> slots avail pending (world s) = unat (current_tx_window s) \<Longrightarrow>
    unat (current_tx_window s) \<le> HARNESS_MAX_TX_WINDOW \<Longrightarrow> fw_ok avail pending s"
  by (simp add: fw_ok_def slots_ok_def)

lemma fw_okD:
  assumes "fw_ok avail pending s"
  shows "store_ok (g_metrics s)" "slots avail pending (world s) = unat (current_tx_window s)"
    "unat (current_tx_window s) \<le> HARNESS_MAX_TX_WINDOW" "slots_ok avail pending s"
  using assms by (simp_all add: fw_ok_def slots_ok_def)

lemma fw_ok_metrics:
  "fw_ok avail pending s \<Longrightarrow> store_ok (u (g_metrics s)) \<Longrightarrow> fw_ok avail pending (upd_metrics u s)"
  by (simp add: fw_ok_def slots_ok_def)

lemma fw_ok_ops:
  assumes "fw_ok avail pending s"
  shows "fw_ok avail pending (upd_metrics metrics_tx_api_failure s)"
    "fw_ok avail pending (upd_metrics metrics_tx_slot_timeout s)"
    "fw_ok avail pending (upd_metrics (metrics_tx_complete ok) s)"
    "fw_ok avail pending (upd_metrics (metrics_dispatch_lateness a d) s)"
    "fw_ok avail pending (upd_metrics metrics_queue_drop s)"
    "fw_ok avail pending (upd_metrics (metrics_drop x y) s)"
    "unat st < HARNESS_MAX_STREAMS \<Longrightarrow> fw_ok avail pending (upd_metrics (metrics_tx_requested st) s)"
    "unat st < HARNESS_MAX_STREAMS \<Longrightarrow>
       fw_ok avail pending (upd_metrics (metrics_tx_submitted st l t) s)"
    "header_wf h \<Longrightarrow> fw_ok avail pending (upd_metrics (metrics_rx h r t) s)"
  using assms store_ok_ops [OF fw_okD(1) [OF assms]] by (auto intro!: fw_ok_metrics)

lemma fw_ok_call:
  "fw_ok avail pending s \<Longrightarrow>
     slots avail pending (snd (f (world s))) = slots avail pending (world s) \<Longrightarrow>
     fw_ok avail pending (snd (call f s))"
  by (simp add: fw_ok_def slots_ok_def)

text \<open>Sending with an acquired slot returns the slot to the account, in the driver or the semaphore.\<close>

lemma send_with_slot:
  assumes L: "slot_laws P avail pending" and ok: "fw_ok avail pending s"
    and acq: "fst (radio_acquire_tx P t s) = ESP_OK"
  defines "s1 \<equiv> snd (radio_acquire_tx P t s)"
  shows "slots avail pending (world s1) < HARNESS_MAX_TX_WINDOW"
    "slots avail pending (world s1) + 1 = unat (current_tx_window s1)"
  using radio_acquire_tx_slots [OF L, of s t] acq fw_okD [OF ok]
  by (simp_all add: s1_def frame_simps)

lemma acquire_timeout:
  assumes L: "slot_laws P avail pending" and ok: "fw_ok avail pending s"
    and acq: "fst (radio_acquire_tx P t s) \<noteq> ESP_OK"
  shows "fw_ok avail pending (snd (radio_acquire_tx P t s))"
  using radio_acquire_tx_slots [OF L, of s t] acq fw_okD [OF ok]
  by (intro fw_okI) (simp_all add: frame_simps)

lemma echo_ping_ok:
  assumes L: "slot_laws P avail pending" and ok: "fw_ok avail pending s" and h: "header_wf h"
  shows "fw_ok avail pending (echo_ping P h ev s)"
    "tx_balance (g_metrics (echo_ping P h ev s)) = tx_balance (g_metrics s)"
proof -
  define s0 where "s0 = upd_metrics (metrics_tx_requested (h_stream_id h)) s"
  define s1 where "s1 = snd (radio_acquire_tx P 100 s0)"
  define s2 where "s2 = snd (call (p_timer P) s1)"
  define s3 where "s3 = snd (radio_send_acquired P (event_frame (echo_event ev)) s2)"
  have st: "unat (h_stream_id h) < HARNESS_MAX_STREAMS" using h by (simp add: header_wf_def)
  have ok0: "fw_ok avail pending s0"
    unfolding s0_def using ok st fw_okD(1) [OF ok] by (intro fw_ok_metrics) auto
  have m3: "g_metrics s3 = g_metrics s0" "current_tx_window s3 = current_tx_window s1"
    by (simp_all add: s3_def s2_def s1_def frame_simps)
  have ok3: "fw_ok avail pending s3" if a: "fst (radio_acquire_tx P 100 s0) = ESP_OK"
  proof -
    note w = send_with_slot [OF L ok0 a, folded s1_def]
    have "slots avail pending (world s2) = slots avail pending (world s1)"
      using slot_neutral [OF L] by (simp add: s2_def)
    then have "slots avail pending (world s3) = unat (current_tx_window s3)"
      using radio_send_acquired_slots [OF L, of s2] w m3 by (simp add: s3_def)
    then show ?thesis
      using m3 fw_okD [OF ok0] by (intro fw_okI) (simp_all add: s1_def frame_simps)
  qed
  note e = echo_ping_def Let_def case_prod_unfold echo_event_def
  have eq: "echo_ping P h ev s =
     (if fst (radio_acquire_tx P 100 s0) = ESP_OK then
        if fst (radio_send_acquired P (event_frame (echo_event ev)) s2) = ESP_OK
        then upd_metrics (metrics_tx_submitted (h_stream_id h) (ev_len ev) (fst (p_timer P (world s1)))) s3
        else upd_metrics metrics_tx_api_failure s3
      else upd_metrics metrics_tx_slot_timeout s1)"
    by (simp add: e s0_def s1_def s2_def s3_def)
  show "fw_ok avail pending (echo_ping P h ev s)"
    unfolding eq
    using ok3 acquire_timeout [OF L ok0, of 100, folded s1_def] st
    by (auto intro!: fw_ok_metrics dest: fw_okD(1))
  show "tx_balance (g_metrics (echo_ping P h ev s)) = tx_balance (g_metrics s)"
    unfolding eq using m3 by (simp add: s1_def s0_def frame_simps ledger.attempt_closed)
qed

lemma receiver_frame_ok:
  assumes L: "slot_laws P avail pending" and ok: "fw_ok avail pending s" and ev: "event_wf ev"
  shows "fw_ok avail pending (receiver_frame P ev s)"
    "tx_balance (g_metrics (receiver_frame P ev s)) = tx_balance (g_metrics s)"
proof -
  have rx: "fw_ok avail pending (upd_metrics (metrics_rx h r t) s)" if "header_wf h" for h r t
    using ok that fw_okD(1) [OF ok] by (intro fw_ok_metrics) auto
  have drop: "fw_ok avail pending (upd_metrics (metrics_drop a b) s)" for a b
    using ok fw_okD(1) [OF ok] by (intro fw_ok_metrics) auto
  have wf: "header_wf h" if "decode_frame (event_frame ev) = Some h" for h
    using that by (rule fw_codec.dec_wf)
  show "fw_ok avail pending (receiver_frame P ev s)"
    unfolding receiver_frame_eq [OF ev] Let_def
    by (auto split: option.split intro: drop rx wf echo_ping_ok(1) [OF L])
  show "tx_balance (g_metrics (receiver_frame P ev s)) = tx_balance (g_metrics s)"
    unfolding receiver_frame_eq [OF ev] Let_def
    by (auto split: option.split simp: echo_ping_ok(2) [OF L rx [OF wf] wf] frame_simps)
qed

lemma receiver_event_ok:
  assumes L: "slot_laws P avail pending" and ok: "fw_ok avail pending s" and ev: "event_wf ev"
  shows "fw_ok avail pending (receiver_event P ev s)"
    "tx_balance (g_metrics (receiver_event P ev s)) = tx_balance (g_metrics s)"
proof -
  have b: "fw_ok avail pending (exec (p_notify_give P w) s)" for w
    using ok slot_neutral [OF L] by (simp add: fw_ok_def slots_ok_def)
  show "fw_ok avail pending (receiver_event P ev s)"
    using receiver_frame_ok(1) [OF L ok ev] ok fw_okD(1) [OF ok] b
    by (auto simp: receiver_event_def split: event_type.split intro!: fw_ok_metrics)
  show "tx_balance (g_metrics (receiver_event P ev s)) = tx_balance (g_metrics s)"
    using receiver_frame_ok(2) [OF L ok ev]
    by (auto simp: receiver_event_def frame_simps split: event_type.split)
qed

text \<open>One turn of the task takes the oldest event off the queue.\<close>

lemma receiver_step_ok:
  assumes L: "slot_laws P avail pending" and Q: "queue_laws P queued"
    and ok: "fw_ok avail pending s" and ev: "\<forall>ev \<in> set (queued (world s)). event_wf ev"
  shows "fw_ok avail pending (receiver_step P s)"
    "tx_balance (g_metrics (receiver_step P s)) = tx_balance (g_metrics s)"
proof -
  let ?s = "snd (call (p_queue_receive P) s)"
  have ok': "fw_ok avail pending ?s" using ok slot_neutral [OF L] by (intro fw_ok_call) auto
  have e: "event_wf e" if "fst (p_queue_receive P (world s)) = Some e" for e
    using that Q ev by (cases "queued (world s)") (auto simp: queue_laws_def)
  show "fw_ok avail pending (receiver_step P s)"
    "tx_balance (g_metrics (receiver_step P s)) = tx_balance (g_metrics s)"
    using receiver_event_ok [OF L ok'] ok' e
    by (simp_all add: receiver_step_def Let_def case_prod_unfold split: option.split)
qed

section \<open>What a step leaves alone\<close>

lemma echo_ping_frame [frame_simps]:
  "g_config (echo_ping P h ev s) = g_config s" "g_state (echo_ping P h ev s) = g_state s"
  "current_tx_window (echo_ping P h ev s) = current_tx_window s"
  "gen_handle (echo_ping P h ev s) = gen_handle s" "queue_ready (echo_ping P h ev s) = queue_ready s"
  by (simp_all add: echo_ping_def Let_def case_prod_unfold frame_simps)

lemma receiver_step_frame [frame_simps]:
  "g_config (receiver_step P s) = g_config s" "g_state (receiver_step P s) = g_state s"
  "current_tx_window (receiver_step P s) = current_tx_window s"
  "gen_handle (receiver_step P s) = gen_handle s" "queue_ready (receiver_step P s) = queue_ready s"
  by (simp_all add: receiver_step_def receiver_event_def receiver_frame_def Let_def
      case_prod_unfold frame_simps split: option.split event_type.split bool.split)

section \<open>Classification\<close>

text \<open>
  The three fates of a received frame. A frame is measured when it decodes, belongs to the
  configured run, and a run is armed, running or finished.
\<close>

datatype fate = Invalid | Stale | Measured bench_header

definition frame_fate :: "harness_config \<Rightarrow> harness_state \<Rightarrow> u8 list \<Rightarrow> fate" where
  "frame_fate c st f =
     (case decode_frame f of
        None \<Rightarrow> Invalid
      | Some h \<Rightarrow> if h_run_id h = run_id c \<and> measurement_state st then Measured h else Stale)"

text \<open>The store without the counters the echo attempt touches.\<close>

definition tx_cleared :: "metrics \<Rightarrow> metrics" where
  "tx_cleared m = m\<lparr>totals := (totals m)\<lparr>t_tx_requested := 0, t_tx_submitted := 0, t_tx_bytes := 0,
      t_send_api_failure := 0, t_tx_slot_timeout := 0\<rparr>,
    m_streams := map (\<lambda>s. s\<lparr>sm_tx_requested := 0, sm_tx_submitted := 0\<rparr>) (m_streams m),
    first_tx_us := 0, last_tx_us := 0\<rparr>"

lemma tx_cleared_simps [simp]:
  "tx_cleared (metrics_tx_requested st m) = tx_cleared m"
  "tx_cleared (metrics_tx_submitted st l d m) = tx_cleared m"
  "tx_cleared (metrics_tx_api_failure m) = tx_cleared m"
  "tx_cleared (metrics_tx_slot_timeout m) = tx_cleared m"
proof -
  have u: "map (\<lambda>s. s\<lparr>sm_tx_requested := 0, sm_tx_submitted := 0\<rparr>) (xs[i := s']) =
      map (\<lambda>s. s\<lparr>sm_tx_requested := 0, sm_tx_submitted := 0\<rparr>) xs"
    if "s'\<lparr>sm_tx_requested := 0, sm_tx_submitted := 0\<rparr> =
        (xs ! i)\<lparr>sm_tx_requested := 0, sm_tx_submitted := 0\<rparr>" for xs i s'
    using that by (cases "i < length xs") (auto simp: map_update list_update_beyond
        intro: list_update_same_conv [THEN iffD2])
  show "tx_cleared (metrics_tx_requested st m) = tx_cleared m"
    "tx_cleared (metrics_tx_submitted st l d m) = tx_cleared m"
    "tx_cleared (metrics_tx_api_failure m) = tx_cleared m"
    "tx_cleared (metrics_tx_slot_timeout m) = tx_cleared m"
    by (simp_all add: tx_cleared_def tx_metric_defs Let_def upd_stream_def u)
qed

text \<open>
  Apart from the transmission counters, the store after a frame is the one its fate prescribes.
\<close>

lemma receiver_frame_fate:
  assumes "event_wf ev"
  shows "tx_cleared (g_metrics (receiver_frame P ev s)) = tx_cleared
    (case frame_fate (g_config s) (g_state s) (event_frame ev) of
       Invalid \<Rightarrow> metrics_drop False True (g_metrics s)
     | Stale \<Rightarrow> metrics_drop True False (g_metrics s)
     | Measured h \<Rightarrow> metrics_rx h (ev_rssi ev) (ev_at ev) (g_metrics s))"
  by (simp add: receiver_frame_eq [OF assms] frame_fate_def echo_ping_def Let_def
      case_prod_unfold frame_simps split: option.split)

end
