(* ===== verification/Generator.thy ===== *)
theory Generator
  imports Receiver
begin

text \<open>
  \<^verbatim>\<open>generator.c\<close>: the task that sends scheduled or back-to-back frames while a run lasts. The task's
  local variables are the record \<open>gen_local\<close>; \<open>gen_turn\<close> is one turn of its loop. A turn that waits
  forever, or that divides by a zero rate or stream count (undefined in C), has no result.
\<close>

section \<open>Waiting and sending\<close>

partial_function (option) wait_deadline :: "'w platform \<Rightarrow> u64 \<Rightarrow> 'w fw \<Rightarrow> 'w fw option" where
  "wait_deadline P deadline_us s =
     (let (now_us, s) = call (p_timer P) s in
      if now_us \<ge> deadline_us then Some s
      else let remaining_us = deadline_us - now_us in
        if remaining_us > 2000
        then wait_deadline P deadline_us
               (exec (p_delay P (p_ms_to_ticks P (unat ((remaining_us - 500) div 1000)))) s)
        else Some (exec (p_delay_us P (ucast remaining_us)) s))"

text \<open>
  \<^verbatim>\<open>memset(packet, 0xa5, size)\<close> on the 250-byte local; the bytes beyond \<open>len\<close> are uninitialised in
  the code and never sent.
\<close>

definition fill_packet :: "u16 \<Rightarrow> u8 list" where
  "fill_packet len = replicate (unat len) 0xa5 @ replicate (HARNESS_MAX_PACKET_SIZE - unat len) 0"

definition packet_header :: "harness_config \<Rightarrow> u8 \<Rightarrow> u16 \<Rightarrow> u32 \<Rightarrow> u16 \<Rightarrow> u64 \<Rightarrow> bench_header" where
  "packet_header c type stream sequence len dispatch_us =
     \<lparr>h_type = type, h_flags = 0, h_run_id = run_id c, h_stream_id = stream, h_packet_len = len,
      h_seq = sequence, h_timestamp_us = dispatch_us\<rparr>"

definition send_one :: "'w platform \<Rightarrow> u8 \<Rightarrow> u16 \<Rightarrow> u32 \<Rightarrow> u16 \<Rightarrow> u64 \<Rightarrow> bool \<Rightarrow> 'w fw \<Rightarrow> bool \<times> 'w fw" where
  "send_one P type stream sequence len deadline_us scheduled s =
     (let s = upd_metrics (metrics_tx_requested stream) s;
          (error, s) = radio_acquire_tx P 100 s in
      if error \<noteq> ESP_OK then
        let s = (if scheduled
                 then let (now_us, s) = call (p_timer P) s
                      in upd_metrics (metrics_dispatch_lateness now_us deadline_us) s
                 else s)
        in (False, upd_metrics metrics_tx_slot_timeout s)
      else
        let (dispatch_us, s) = call (p_timer P) s;
            s = (if scheduled then upd_metrics (metrics_dispatch_lateness dispatch_us deadline_us) s
                 else s);
            packet = fill_packet len;
            header = packet_header (g_config s) type stream sequence len dispatch_us in
        case bench_encode (Some packet) HARNESS_MAX_PACKET_SIZE (Some header) of
          (True, Some packet) \<Rightarrow>
            let (error, s) = radio_send_acquired P (take (unat len) packet) s in
            if error = ESP_OK then (True, upd_metrics (metrics_tx_submitted stream len dispatch_us) s)
            else let s = upd_metrics metrics_tx_api_failure s
                 in (False, if \<not> scheduled then exec (p_yield P) s else s)
        | _ \<Rightarrow> (False, upd_metrics metrics_tx_api_failure (radio_release_tx P s)))"

section \<open>The task\<close>

record gen_local =
  gl_sequences :: "u32 list"
  gl_start_us :: u64
  gl_end_us :: u64
  gl_index :: u64
  gl_background_index :: u64
  gl_probe_index :: u64
  gl_next_background_us :: u64
  gl_next_probe_us :: u64

definition gen_begin :: "'w platform \<Rightarrow> 'w fw \<Rightarrow> gen_local \<times> 'w fw" where
  "gen_begin P s =
     (let (start, s) = call (p_timer P) s;
          l = \<lparr>gl_sequences = replicate HARNESS_MAX_STREAMS 0, gl_start_us = start,
               gl_end_us = start + duration_us (g_config s), gl_index = 0,
               gl_background_index = 0, gl_probe_index = 0,
               gl_next_background_us = start, gl_next_probe_us = start\<rparr>
      in (l, upd_metrics (\<lambda>m. m\<lparr>start_us := start\<rparr>) s))"

text \<open>The loop condition reads the timer only while the run lasts.\<close>

definition gen_cond :: "'w platform \<Rightarrow> gen_local \<Rightarrow> 'w fw \<Rightarrow> bool \<times> 'w fw" where
  "gen_cond P l s =
     (if g_state s = STATE_RUNNING
      then let (now, s) = call (p_timer P) s in (now < gl_end_us l, s) else (False, s))"

text \<open>Send one frame of a stream with its next sequence number, which an accepted send uses up.\<close>

definition send_next ::
  "'w platform \<Rightarrow> u8 \<Rightarrow> nat \<Rightarrow> u16 \<Rightarrow> u64 \<Rightarrow> bool \<Rightarrow> gen_local \<Rightarrow> 'w fw \<Rightarrow> gen_local \<times> 'w fw" where
  "send_next P type stream len deadline_us scheduled l s =
     (let seqs = gl_sequences l;
          (sent, s) = send_one P type (of_nat stream) (seqs ! stream) len deadline_us scheduled s
      in (if sent then l\<lparr>gl_sequences := seqs[stream := seqs ! stream + 1]\<rparr> else l, s))"

definition background_streams :: "harness_config \<Rightarrow> u16" where
  "background_streams c = (if streams c > 15 then 15 else streams c)"

definition gen_latency_turn ::
  "'w platform \<Rightarrow> gen_local \<Rightarrow> 'w fw \<Rightarrow> (gen_local \<times> 'w fw) option" where
  "gen_latency_turn P l s =
     (let c = g_config s;
          probe = gl_next_probe_us l \<le> gl_next_background_us l;
          deadline = (if probe then gl_next_probe_us l else gl_next_background_us l)
      in case wait_deadline P deadline s of
           None \<Rightarrow> None
         | Some s \<Rightarrow>
             if probe then
               let (l, s) = send_next P PACKET_PING (HARNESS_MAX_STREAMS - 1) (packet_size c)
                              deadline True l s;
                   l = l\<lparr>gl_probe_index := gl_probe_index l + 1\<rparr>
               in if probe_rate c = 0 then None
                  else Some (l\<lparr>gl_next_probe_us := gl_start_us l +
                         gl_probe_index l * 1000000 div ucast (probe_rate c)\<rparr>, s)
             else if background_streams c = 0 then None
             else
               let stream = unat (gl_background_index l mod ucast (background_streams c));
                   (l, s) = send_next P PACKET_STREAM stream (background_packet_size c)
                              deadline True l s;
                   l = l\<lparr>gl_background_index := gl_background_index l + 1\<rparr>
               in if background_rate c = 0 then None
                  else Some (l\<lparr>gl_next_background_us := gl_start_us l +
                         gl_background_index l * 1000000 div ucast (background_rate c)\<rparr>, s))"

definition stream_rate :: "harness_config \<Rightarrow> u64" where
  "stream_rate c = (if mode c = MODE_SATURATION then 0 else ucast (rate_per_stream c) * ucast (streams c))"

definition gen_stream_turn ::
  "'w platform \<Rightarrow> gen_local \<Rightarrow> 'w fw \<Rightarrow> (gen_local \<times> 'w fw) option" where
  "gen_stream_turn P l s =
     (let c = g_config s;
          rate = stream_rate c;
          deadline = (if rate \<noteq> 0 then gl_start_us l + gl_index l * 1000000 div rate else 0)
      in case (if rate \<noteq> 0 then wait_deadline P deadline s else Some s) of
           None \<Rightarrow> None
         | Some s \<Rightarrow>
             if streams c = 0 then None
             else
               let stream = unat (gl_index l mod ucast (streams c));
                   type = (if mode c = MODE_PING then PACKET_PING else PACKET_STREAM);
                   (l, s) = send_next P type stream (packet_size c) deadline (rate \<noteq> 0) l s
               in Some (l\<lparr>gl_index := gl_index l + 1\<rparr>, s))"

definition gen_turn :: "'w platform \<Rightarrow> gen_local \<Rightarrow> 'w fw \<Rightarrow> (gen_local \<times> 'w fw) option" where
  "gen_turn P l s =
     (if mode (g_config s) = MODE_LATENCY_LOAD then gen_latency_turn P l s else gen_stream_turn P l s)"

definition gen_finish :: "'w platform \<Rightarrow> 'w fw \<Rightarrow> 'w fw" where
  "gen_finish P s =
     (let s = (if g_state s = STATE_RUNNING
               then let (now, s) = call (p_timer P) s in upd_metrics (\<lambda>m. m\<lparr>end_us := now\<rparr>) s
               else s);
          s = (if g_state s \<noteq> STATE_ERROR then s\<lparr>g_state := STATE_FINISHED\<rparr> else s)
      in s\<lparr>gen_handle := False\<rparr>)"

partial_function (option) gen_loop ::
  "'w platform \<Rightarrow> gen_local \<Rightarrow> 'w fw \<Rightarrow> (gen_local \<times> 'w fw) option" where
  "gen_loop P l s =
     (let (go, s) = gen_cond P l s in
      if go then (case gen_turn P l s of None \<Rightarrow> None | Some r \<Rightarrow> gen_loop P (fst r) (snd r))
      else Some (l, s))"

definition generator_task :: "'w platform \<Rightarrow> 'w fw \<Rightarrow> 'w fw option" where
  "generator_task P s =
     (let (l, s) = gen_begin P s
      in case gen_loop P l s of None \<Rightarrow> None | Some r \<Rightarrow> Some (gen_finish P (snd r)))"

section \<open>Control of the task\<close>

partial_function (option) wait_handle :: "'w platform \<Rightarrow> u32 \<Rightarrow> 'w fw \<Rightarrow> (bool \<times> 'w fw) option" where
  "wait_handle P deadline s =
     (if \<not> gen_handle s then Some (True, s)
      else let (now, s) = call (p_tick_count P) s in
        if 0 \<le> sint (now - deadline) then Some (False, s)
        else wait_handle P deadline (exec (p_delay P (p_ms_to_ticks P 1)) s))"

definition generator_wait_stopped :: "'w platform \<Rightarrow> u32 \<Rightarrow> 'w fw \<Rightarrow> (bool \<times> 'w fw) option" where
  "generator_wait_stopped P timeout_ms s =
     (let (now, s) = call (p_tick_count P) s
      in wait_handle P (now + p_ms_to_ticks P (unat timeout_ms)) s)"

definition generator_start :: "'w platform \<Rightarrow> 'w fw \<Rightarrow> esp_err \<times> 'w fw" where
  "generator_start P s =
     (if gen_handle s then (ESP_ERR_INVALID_STATE, s)
      else if role (g_config s) \<noteq> ROLE_GENERATOR \<and> role (g_config s) \<noteq> ROLE_PING_INITIATOR
      then (ESP_OK, s)
      else let (ok, s) = call (p_task_create P ''bench_gen'') s
           in if ok then (ESP_OK, s\<lparr>gen_handle := True\<rparr>) else (ESP_ERR_NO_MEM, s))"

section \<open>One transmission\<close>

lemma length_fill_packet:
  "unat len \<le> HARNESS_MAX_PACKET_SIZE \<Longrightarrow> length (fill_packet len) = HARNESS_MAX_PACKET_SIZE"
  by (simp add: fill_packet_def)

lemma packet_header_simps [simp]:
  "h_packet_len (packet_header c ty st q len t) = len" "h_seq (packet_header c ty st q len t) = q"
  "h_stream_id (packet_header c ty st q len t) = st" "h_run_id (packet_header c ty st q len t) = run_id c"
  "h_type (packet_header c ty st q len t) = ty" "h_timestamp_us (packet_header c ty st q len t) = t"
  by (simp_all add: packet_header_def)

text \<open>The lateness sample of a scheduled frame, and the world the next call sees.\<close>

definition note_lateness :: "bool \<Rightarrow> u64 \<Rightarrow> u64 \<Rightarrow> 'w fw \<Rightarrow> 'w fw" where
  "note_lateness scheduled now deadline s =
     (if scheduled then upd_metrics (metrics_dispatch_lateness now deadline) s else s)"

lemma note_lateness_simps [simp]:
  "g_config (note_lateness b n d s) = g_config s" "g_state (note_lateness b n d s) = g_state s"
  "current_tx_window (note_lateness b n d s) = current_tx_window s"
  "world (note_lateness b n d s) = world s" "gen_handle (note_lateness b n d s) = gen_handle s"
  "queue_ready (note_lateness b n d s) = queue_ready s"
  "tx_balance (g_metrics (note_lateness b n d s)) = tx_balance (g_metrics s)"
  "m_streams (g_metrics (note_lateness b n d s)) = m_streams (g_metrics s)"
  by (simp_all add: note_lateness_def tx_balance_def metrics_dispatch_lateness_def)

lemma note_lateness_ok: "fw_ok avail pending s \<Longrightarrow> fw_ok avail pending (note_lateness b n d s)"
  by (simp add: note_lateness_def fw_ok_ops)

text \<open>
  The stages of \<^verbatim>\<open>send_one\<close>: \<open>so_acquired\<close> after the request and the wait for a slot, \<open>so_ready\<close>
  with the dispatch time noted, \<open>so_frame\<close> the encoded frame, \<open>so_sent\<close> after the driver call.
\<close>

definition so_acquired :: "'w platform \<Rightarrow> u16 \<Rightarrow> 'w fw \<Rightarrow> esp_err \<times> 'w fw" where
  "so_acquired P st s = radio_acquire_tx P 100 (upd_metrics (metrics_tx_requested st) s)"

definition so_dispatch :: "'w platform \<Rightarrow> u16 \<Rightarrow> 'w fw \<Rightarrow> u64" where
  "so_dispatch P st s = fst (p_timer P (world (snd (so_acquired P st s))))"

definition so_ready :: "'w platform \<Rightarrow> u16 \<Rightarrow> u64 \<Rightarrow> bool \<Rightarrow> 'w fw \<Rightarrow> 'w fw" where
  "so_ready P st dl sch s = note_lateness sch (so_dispatch P st s) dl
     (snd (call (p_timer P) (snd (so_acquired P st s))))"

definition so_header :: "'w platform \<Rightarrow> u8 \<Rightarrow> u16 \<Rightarrow> u32 \<Rightarrow> u16 \<Rightarrow> 'w fw \<Rightarrow> bench_header" where
  "so_header P ty st q len s = packet_header (g_config s) ty st q len (so_dispatch P st s)"

lemma so_frame_simps [simp]:
  "g_config (snd (so_acquired P st s)) = g_config s"
  "g_state (snd (so_acquired P st s)) = g_state s"
  "g_metrics (snd (so_acquired P st s)) = metrics_tx_requested st (g_metrics s)"
  "current_tx_window (snd (so_acquired P st s)) = current_tx_window s"
  "gen_handle (snd (so_acquired P st s)) = gen_handle s"
  "queue_ready (snd (so_acquired P st s)) = queue_ready s"
  "g_config (so_ready P st dl sch s) = g_config s" "g_state (so_ready P st dl sch s) = g_state s"
  "current_tx_window (so_ready P st dl sch s) = current_tx_window s"
  "gen_handle (so_ready P st dl sch s) = gen_handle s"
  "queue_ready (so_ready P st dl sch s) = queue_ready s"
  "tx_balance (g_metrics (so_ready P st dl sch s)) =
     tx_balance (metrics_tx_requested st (g_metrics s))"
  "m_streams (g_metrics (so_ready P st dl sch s)) = m_streams (metrics_tx_requested st (g_metrics s))"
  by (simp_all add: so_acquired_def so_ready_def frame_simps)

text \<open>The whole of \<^verbatim>\<open>send_one\<close> for a size the encoder accepts.\<close>

lemma send_one_eq:
  assumes f: "encode_frame (so_header P ty st q len s) (fill_packet len) = Some f"
    and len: "unat len \<le> HARNESS_MAX_PACKET_SIZE"
  shows "send_one P ty st q len dl sch s =
    (let r = radio_send_acquired P f (so_ready P st dl sch s) in
     if fst (so_acquired P st s) \<noteq> ESP_OK then
       (False, upd_metrics metrics_tx_slot_timeout
          (if sch then so_ready P st dl sch s else snd (so_acquired P st s)))
     else if fst r = ESP_OK
     then (True, upd_metrics (metrics_tx_submitted st len (so_dispatch P st s)) (snd r))
     else (False, (if sch then (\<lambda>s. s) else exec (p_yield P))
             (upd_metrics metrics_tx_api_failure (snd r))))"
proof -
  obtain b where b: "bench_encode (Some (fill_packet len)) HARNESS_MAX_PACKET_SIZE
      (Some (so_header P ty st q len s)) = (True, Some b)" "f = take (unat len) b"
    using encode_frame_SomeD [OF f] length_fill_packet [OF len] by (metis packet_header_simps(1) so_header_def)
  show ?thesis
  proof (cases "fst (so_acquired P st s) = ESP_OK")
    case False
    then show ?thesis
      by (cases sch) (simp_all add: send_one_def so_acquired_def so_ready_def so_dispatch_def
          note_lateness_def Let_def case_prod_unfold)
  next
    case True
    then show ?thesis
      using b
      by (simp add: send_one_def so_header_def so_acquired_def so_ready_def so_dispatch_def
          note_lateness_def Let_def case_prod_unfold frame_simps)
  qed
qed

lemma so_ready_ok:
  assumes L: "slot_laws P avail pending" and ok: "fw_ok avail pending s"
    and st: "unat st < HARNESS_MAX_STREAMS"
  shows "fst (so_acquired P st s) \<noteq> ESP_OK \<Longrightarrow> fw_ok avail pending (snd (so_acquired P st s))"
    "fst (so_acquired P st s) \<noteq> ESP_OK \<Longrightarrow> fw_ok avail pending (so_ready P st dl sch s)"
    "fst (so_acquired P st s) = ESP_OK \<Longrightarrow>
       slots avail pending (world (so_ready P st dl sch s)) + 1 = unat (current_tx_window s)"
    "store_ok (g_metrics (so_ready P st dl sch s))"
proof -
  have ok0: "fw_ok avail pending (upd_metrics (metrics_tx_requested st) s)"
    using ok st fw_okD(1) [OF ok] by (intro fw_ok_metrics) auto
  show a: "fst (so_acquired P st s) \<noteq> ESP_OK \<Longrightarrow> fw_ok avail pending (snd (so_acquired P st s))"
    using acquire_timeout [OF L ok0] by (simp add: so_acquired_def)
  show "fst (so_acquired P st s) \<noteq> ESP_OK \<Longrightarrow> fw_ok avail pending (so_ready P st dl sch s)"
    unfolding so_ready_def using a slot_neutral [OF L] by (intro note_lateness_ok fw_ok_call) auto
  show "fst (so_acquired P st s) = ESP_OK \<Longrightarrow>
       slots avail pending (world (so_ready P st dl sch s)) + 1 = unat (current_tx_window s)"
    using send_with_slot(2) [OF L ok0] slot_neutral [OF L]
    by (simp add: so_ready_def so_acquired_def frame_simps)
  have "store_ok (g_metrics (snd (so_acquired P st s)))"
    using fw_okD(1) [OF ok0] by simp
  then show "store_ok (g_metrics (so_ready P st dl sch s))"
    by (auto simp: so_ready_def note_lateness_def)
qed

text \<open>A transmission of the generator keeps the invariant and closes the attempt it opened.\<close>

lemma send_one_ok:
  assumes L: "slot_laws P avail pending" and ok: "fw_ok avail pending s"
    and st: "unat st < HARNESS_MAX_STREAMS"
    and f: "encode_frame (so_header P ty st q len s) (fill_packet len) = Some f"
    and len: "unat len \<le> HARNESS_MAX_PACKET_SIZE"
  shows "fw_ok avail pending (snd (send_one P ty st q len dl sch s))"
    "tx_balance (g_metrics (snd (send_one P ty st q len dl sch s))) = tx_balance (g_metrics s)"
proof -
  note r = so_ready_ok [OF L ok st]
  let ?r = "radio_send_acquired P f (so_ready P st dl sch s)"
  have s: "fw_ok avail pending (snd ?r)" if "fst (so_acquired P st s) = ESP_OK"
    using radio_send_acquired_slots [OF L, of "so_ready P st dl sch s" f] r(3) [OF that, of dl sch]
      r(4) [of dl sch] fw_okD [OF ok]
    by (intro fw_okI) (simp_all add: frame_simps)
  have y: "fw_ok avail pending (exec (p_yield P) x)" if "fw_ok avail pending x" for x
    using that slot_neutral [OF L] by (simp add: fw_ok_def slots_ok_def)
  show "fw_ok avail pending (snd (send_one P ty st q len dl sch s))"
    unfolding send_one_eq [OF f len] Let_def
    using r(1) r(2) [of dl sch] s st
    by (cases sch) (simp_all add: fw_ok_ops y)
  show "tx_balance (g_metrics (snd (send_one P ty st q len dl sch s))) = tx_balance (g_metrics s)"
    unfolding send_one_eq [OF f len] Let_def
    by (auto simp: frame_simps ledger.balance_simps)
qed

lemma send_one_frame [frame_simps]:
  "g_config (snd (send_one P ty st q len dl sch s)) = g_config s"
  "g_state (snd (send_one P ty st q len dl sch s)) = g_state s"
  "current_tx_window (snd (send_one P ty st q len dl sch s)) = current_tx_window s"
  "gen_handle (snd (send_one P ty st q len dl sch s)) = gen_handle s"
  "queue_ready (snd (send_one P ty st q len dl sch s)) = queue_ready s"
  by (simp_all add: send_one_def Let_def case_prod_unfold frame_simps split: bool.split option.split)

text \<open>An accepted frame is counted on its stream, a refused one is not.\<close>

lemma send_one_submitted:
  assumes f: "encode_frame (so_header P ty st q len s) (fill_packet len) = Some f"
    and len: "unat len \<le> HARNESS_MAX_PACKET_SIZE"
    and st: "unat st < HARNESS_MAX_STREAMS" "HARNESS_MAX_STREAMS \<le> length (m_streams (g_metrics s))"
  shows "sm_tx_submitted (m_streams (g_metrics (snd (send_one P ty st q len dl sch s))) ! i) =
    sm_tx_submitted (m_streams (g_metrics s) ! i) +
    of_bool (i = unat st \<and> fst (send_one P ty st q len dl sch s))"
  unfolding send_one_eq [OF f len] Let_def
  using st
  by (auto simp: frame_simps metrics_tx_requested_def metrics_tx_submitted_def Let_def
      metrics_tx_api_failure_def metrics_tx_slot_timeout_def nth_list_update)

text \<open>What the driver has been given.\<close>

lemma so_ready_sent:
  assumes "sent_laws P sent"
  shows "sent (world (snd (so_acquired P st s))) = sent (world s)"
    "sent (world (so_ready P st dl sch s)) = sent (world s)"
  using assms
  by (simp_all add: so_ready_def so_acquired_def radio_acquire_tx_def sent_laws_def
      neutral_calls_def keeps_def keeps_world_def Let_def case_prod_unfold)

lemma send_one_sent:
  assumes S: "sent_laws P sent"
    and f: "encode_frame (so_header P ty st q len s) (fill_packet len) = Some f"
    and len: "unat len \<le> HARNESS_MAX_PACKET_SIZE"
  shows "sent (world (snd (send_one P ty st q len dl sch s))) =
    (if fst (send_one P ty st q len dl sch s) then sent (world s) @ [f] else sent (world s))"
proof -
  have r: "sent (world (snd (radio_send_acquired P d x))) =
      (if fst (radio_send_acquired P d x) = ESP_OK then sent (world x) @ [d] else sent (world x))" for d x
    using S by (simp add: radio_send_acquired_def sent_laws_def keeps_world_def Let_def case_prod_unfold)
  have y: "sent (p_yield P w) = sent w" for w
    using S by (simp add: sent_laws_def neutral_calls_def keeps_world_def)
  show ?thesis
    unfolding send_one_eq [OF f len] Let_def by (auto simp: r y so_ready_sent [OF S])
qed

section \<open>Waiting for a deadline\<close>

text \<open>Waiting only advances the world, by timer readings and delays.\<close>

definition keeps_waiting :: "'w platform \<Rightarrow> ('w \<Rightarrow> 'v) \<Rightarrow> bool" where
  "keeps_waiting P v \<longleftrightarrow> keeps v (p_timer P) \<and> (\<forall>t. keeps_world v (p_delay P t)) \<and>
     (\<forall>t. keeps_world v (p_delay_us P t))"

definition world_step :: "'w platform \<Rightarrow> ('w \<Rightarrow> 'v) \<Rightarrow> 'w fw \<Rightarrow> 'w fw \<Rightarrow> bool" where
  "world_step P v s s' \<longleftrightarrow>
     s' = s\<lparr>world := world s'\<rparr> \<and> (keeps_waiting P v \<longrightarrow> v (world s') = v (world s))"

lemma world_step_trans: "world_step P v s s' \<Longrightarrow> world_step P v s' s'' \<Longrightarrow> world_step P v s s''"
  unfolding world_step_def by (metis fw.surjective fw.update_convs(8))

lemma world_step_calls:
  "world_step P v s (snd (call (p_timer P) s))" "world_step P v s (exec (p_delay P t) s)"
  "world_step P v s (exec (p_delay_us P t') s)"
  by (simp_all add: world_step_def keeps_waiting_def keeps_def keeps_world_def call_def exec_def)

lemma wait_deadline_world_step:
  assumes "wait_deadline P d s = Some s'"
  shows "world_step P v s s'"
proof -
  have "(\<lambda>((P, d), s) s'. world_step P v s s') ((P, d), s) s'"
  proof (rule wait_deadline.raw_induct [OF _ assms], goal_cases)
    case (1 wd P d s s')
    let ?s1 = "snd (call (p_timer P) s)"
    let ?now = "fst (p_timer P (world s))"
    let ?t = "p_ms_to_ticks P (unat ((d - ?now - 500) div 1000))"
    note eq = 1(2) [unfolded Let_def case_prod_unfold, simplified]
    consider "d \<le> ?now" | "\<not> d \<le> ?now" "\<not> 2000 < d - ?now" | "\<not> d \<le> ?now" "2000 < d - ?now"
      by blast
    then show ?case
    proof cases
      case 1
      then have "s' = ?s1" using eq by simp
      then show ?thesis using world_step_calls(1) [of P v s] by simp
    next
      case 2
      then have "s' = exec (p_delay_us P (ucast (d - ?now))) ?s1" using eq by simp
      then show ?thesis
        using world_step_trans [OF world_step_calls(1) world_step_calls(3)] by simp
    next
      case 3
      then have "wd P d (exec (p_delay P ?t) ?s1) = Some s'" using eq by simp
      then have "world_step P v (exec (p_delay P ?t) ?s1) s'" using 1(1) by fastforce
      then show ?thesis
        using world_step_trans [OF world_step_trans [OF world_step_calls(1) world_step_calls(2)]]
        by simp
    qed
  qed
  then show ?thesis by simp
qed

lemma wait_deadline_frame:
  assumes "wait_deadline P d s = Some s'"
  shows "g_config s' = g_config s" "g_state s' = g_state s" "g_metrics s' = g_metrics s"
    "current_tx_window s' = current_tx_window s" "queue_ready s' = queue_ready s"
    "gen_handle s' = gen_handle s" "keeps_waiting P v \<Longrightarrow> v (world s') = v (world s)"
proof -
  have s': "s' = s\<lparr>world := world s'\<rparr>"
    using wait_deadline_world_step [OF assms, of "\<lambda>w. w"] by (simp add: world_step_def)
  show "g_config s' = g_config s" "g_state s' = g_state s" "g_metrics s' = g_metrics s"
    "current_tx_window s' = current_tx_window s" "queue_ready s' = queue_ready s"
    "gen_handle s' = gen_handle s"
    by (subst s', simp)+
  show "keeps_waiting P v \<Longrightarrow> v (world s') = v (world s)"
    using wait_deadline_world_step [OF assms, of v] by (simp add: world_step_def)
qed

text \<open>Under the clock's laws the wait ends, and not before the deadline.\<close>

lemma wait_deadline_returns:
  assumes L: "clock_laws P clock"
  shows "\<exists>s'. wait_deadline P d s = Some s' \<and> d \<le> clock (world s') \<and> clock (world s) \<le> clock (world s')"
proof (induction "unat (- 1 - clock (world s))" arbitrary: s rule: less_induct)
  case less
  let ?now = "clock (world s)"
  let ?s1 = "snd (call (p_timer P) s)"
  have t: "fst (p_timer P (world s)) = ?now" "?now \<le> clock (world ?s1)"
    using L by (simp_all add: clock_laws_def never_back_def)
  note step = wait_deadline.simps [of P d s, unfolded Let_def case_prod_unfold call_simps]
  consider "d \<le> ?now" | "?now < d" "d - ?now \<le> 2000" | "?now < d" "2000 < d - ?now" by force
  then show ?case
  proof cases
    case 1
    then show ?thesis using t by (simp add: step)
  next
    case 2
    let ?w = "p_delay_us P (ucast (d - ?now)) (world ?s1)"
    have r: "unat (ucast (d - ?now) :: u32) = unat (d - ?now)"
      using 2(2) by (simp add: unsigned_ucast_eq word_le_nat_alt take_bit_nat_eq_self)
    have le: "clock (world ?s1) \<le> clock ?w" using L by (simp add: clock_laws_def never_back_def)
    have sub: "unat (d - ?now) = unat d - unat ?now" using 2(1) by (simp add: unat_sub less_imp_le)
    have "min (2 ^ 64 - 1) (unat (clock (world ?s1)) + unat x) \<le> unat (clock (p_delay_us P x (world ?s1)))"
      for x using L by (simp only: clock_laws_def)
    from this [of "ucast (d - ?now)"]
    have "min (2 ^ 64 - 1) (unat (clock (world ?s1)) + (unat d - unat ?now)) \<le> unat (clock ?w)"
      by (simp only: r sub)
    moreover have "unat ?now \<le> unat (clock (world ?s1))" "unat d < 2 ^ 64"
      using t(2) unsigned_less [of d] by (simp_all add: word_le_nat_alt)
    ultimately have "d \<le> clock ?w" by (simp add: word_le_nat_alt)
    moreover have "wait_deadline P d s = Some (exec (p_delay_us P (ucast (d - ?now))) ?s1)"
      using 2 t(1) by (simp add: step not_le leD)
    ultimately show ?thesis
      using le t(2) by (intro exI [of _ "exec (p_delay_us P (ucast (d - ?now))) ?s1"]) simp
  next
    case 3
    let ?s2 = "exec (p_delay P (p_ms_to_ticks P (unat ((d - ?now - 500) div 1000)))) ?s1"
    have less: "?now < clock (world ?s2)"
    proof (cases "clock (world ?s1) < - 1")
      case True
      moreover have "clock w < - 1 \<Longrightarrow> clock w < clock (p_delay P x w)" for x w
        using L by (simp only: clock_laws_def)
      ultimately have "clock (world ?s1) < clock (world ?s2)" by simp
      with t(2) show ?thesis by (rule order_le_less_trans)
    next
      case False
      then have "clock (world ?s1) = - 1" by (simp add: not_less order_antisym)
      moreover have "clock (world ?s1) \<le> clock (world ?s2)"
        using L by (simp add: clock_laws_def never_back_def)
      moreover have "?now < - 1" using 3(1) by (metis word_n1_ge order_less_le_trans)
      ultimately show ?thesis by simp
    qed
    then have "unat (- 1 - clock (world ?s2)) < unat (- 1 - ?now)"
      by (rule unat_u64_room_less)
    then obtain s' where s': "wait_deadline P d ?s2 = Some s'" "d \<le> clock (world s')"
      "clock (world ?s2) \<le> clock (world s')"
      using less.hyps by blast
    have eq: "wait_deadline P d s = wait_deadline P d ?s2"
      using 3(2) t(1) 3(1) [unfolded not_le [symmetric]] by (simp add: step)
    have "?now \<le> clock (world s')" using less s'(3) by (rule order_trans [OF less_imp_le])
    then show ?thesis using s' eq by (intro exI [of _ s']) simp
  qed
qed

end
