(* ===== verification/Generator_Run.thy ===== *)
theory Generator_Run
  imports Generator
begin

text \<open>
  The generator's loop over a configuration the command parser accepts: every turn returns, keeps
  the invariant of the store and the slots, and gives the driver frames whose sequence numbers are
  consecutive on every stream.
\<close>

section \<open>Configurations the loop can run with\<close>

definition packet_len_ok :: "u16 \<Rightarrow> bool" where
  "packet_len_ok n \<longleftrightarrow> BENCH_HEADER_SIZE \<le> unat n \<and> unat n \<le> HARNESS_MAX_PACKET_SIZE"

definition gen_config_ok :: "harness_config \<Rightarrow> bool" where
  "gen_config_ok c \<longleftrightarrow> packet_len_ok (packet_size c) \<and>
     streams c \<noteq> 0 \<and> unat (streams c) \<le> HARNESS_MAX_STREAMS \<and>
     (mode c = MODE_LATENCY_LOAD \<longrightarrow> probe_rate c \<noteq> 0 \<and> background_rate c \<noteq> 0 \<and>
        packet_len_ok (background_packet_size c))"

lemma encode_generated:
  assumes "packet_len_ok len"
  obtains f where "encode_frame (so_header P ty st q len s) (fill_packet len) = Some f"
    "unat len \<le> HARNESS_MAX_PACKET_SIZE" "length f = unat len"
proof -
  have n: "28 \<le> unat len" "unat len \<le> HARNESS_MAX_PACKET_SIZE"
    using assms by (simp_all add: packet_len_ok_def BENCH_HEADER_SIZE_def)
  then obtain f where f: "encode_frame (so_header P ty st q len s) (fill_packet len) = Some f"
    using encode_frame_exists [of "so_header P ty st q len s" "fill_packet len"]
    by (auto simp: so_header_def length_fill_packet)
  then obtain b where b: "bench_encode (Some (fill_packet len)) (length (fill_packet len))
      (Some (so_header P ty st q len s)) = (True, Some b)" "f = take (unat len) b"
    by (rule encode_frame_SomeD) (simp add: so_header_def)
  have "length b = HARNESS_MAX_PACKET_SIZE"
    using bench_encode_TrueE(1) [OF b(1)] n length_fill_packet [of len]
    by (simp add: HARNESS_MAX_PACKET_SIZE_def)
  then show thesis using that [OF f n(2)] b(2) n(2) by simp
qed

section \<open>The frames of a run\<close>

text \<open>
  \<open>stream_seqs i fs\<close>: the sequence numbers of the frames of stream \<open>i\<close> among \<open>fs\<close>, in order.
  \<open>run_log c l fs\<close>: the frames \<open>fs\<close> are those of a run with configuration \<open>c\<close> whose task has the
  local variables \<open>l\<close>: each decodes to a header of the run with a size of the configuration, and
  stream \<open>i\<close> has used exactly the numbers below its next one.
\<close>

definition stream_seqs :: "nat \<Rightarrow> u8 list list \<Rightarrow> u32 list" where
  "stream_seqs i fs = map h_seq (filter (\<lambda>h. unat (h_stream_id h) = i) (List.map_filter decode_frame fs))"

definition run_frame :: "harness_config \<Rightarrow> u8 list \<Rightarrow> bool" where
  "run_frame c f \<longleftrightarrow> (\<exists>h. decode_frame f = Some h \<and> h_run_id h = run_id c \<and>
     length f \<in> {unat (packet_size c), unat (background_packet_size c)})"

definition run_log :: "harness_config \<Rightarrow> gen_local \<Rightarrow> u8 list list \<Rightarrow> bool" where
  "run_log c l fs \<longleftrightarrow> length (gl_sequences l) = HARNESS_MAX_STREAMS \<and> (\<forall>f\<in>set fs. run_frame c f) \<and>
     (\<forall>i<HARNESS_MAX_STREAMS. stream_seqs i fs = map of_nat [0..<length (stream_seqs i fs)] \<and>
        gl_sequences l ! i = of_nat (length (stream_seqs i fs)))"

lemma run_log_begin: "run_log c (fst (gen_begin P s)) []"
  by (simp add: run_log_def gen_begin_def stream_seqs_def List.map_filter_def Let_def case_prod_unfold)

lemma stream_seqs_snoc:
  "decode_frame f = Some h \<Longrightarrow> stream_seqs i (fs @ [f]) =
     stream_seqs i fs @ (if unat (h_stream_id h) = i then [h_seq h] else [])"
  by (simp add: stream_seqs_def List.map_filter_def)

lemma run_log_snoc:
  assumes log: "run_log c l fs" and i: "i < HARNESS_MAX_STREAMS"
    and f: "decode_frame f = Some h" "h_run_id h = run_id c" "unat (h_stream_id h) = i"
      "h_seq h = gl_sequences l ! i" "length f \<in> {unat (packet_size c), unat (background_packet_size c)}"
  shows "run_log c (l\<lparr>gl_sequences := (gl_sequences l)[i := gl_sequences l ! i + 1]\<rparr>) (fs @ [f])"
proof -
  have "run_frame c f" using f by (simp add: run_frame_def)
  then show ?thesis
    using log i f by (auto simp: run_log_def stream_seqs_snoc nth_list_update)
qed

section \<open>One frame\<close>

text \<open>
  The state of the task and the machine during a run: the invariant, and the frames sent since the
  run began with \<open>base\<close> frames before it.
\<close>

definition run_ok ::
  "('w \<Rightarrow> nat) \<Rightarrow> ('w \<Rightarrow> nat) \<Rightarrow> ('w \<Rightarrow> u8 list list) \<Rightarrow> u8 list list \<Rightarrow> gen_local \<Rightarrow> 'w fw \<Rightarrow> bool" where
  "run_ok avail pending sent base l s \<longleftrightarrow> fw_ok avail pending s \<and>
     (\<exists>fs. sent (world s) = base @ fs \<and> run_log (g_config s) l fs)"

lemma send_next_run:
  fixes ty :: u8 and dl :: u64 and sch :: bool
  assumes L: "slot_laws P avail pending" and S: "sent_laws P sent"
    and ok: "run_ok avail pending sent base l s"
    and st: "i < HARNESS_MAX_STREAMS"
    and len: "packet_len_ok len" "len \<in> {packet_size (g_config s), background_packet_size (g_config s)}"
  defines "r \<equiv> send_next P ty i len dl sch l s"
  shows "run_ok avail pending sent base (fst r) (snd r)"
    "g_config (snd r) = g_config s" "g_state (snd r) = g_state s" "gen_handle (snd r) = gen_handle s"
    "tx_balance (g_metrics (snd r)) = tx_balance (g_metrics s)"
    "gl_start_us (fst r) = gl_start_us l" "gl_end_us (fst r) = gl_end_us l"
proof -
  let ?st = "of_nat i :: u16" and ?q = "gl_sequences l ! i"
  let ?s = "send_one P ty ?st ?q len dl sch s"
  have i: "unat ?st = i" using st by (simp add: unat_of_nat HARNESS_MAX_STREAMS_def)
  then have st': "unat ?st < HARNESS_MAX_STREAMS" using st by simp
  obtain f where f: "encode_frame (so_header P ty ?st ?q len s) (fill_packet len) = Some f"
    "unat len \<le> HARNESS_MAX_PACKET_SIZE" "length f = unat len"
    using encode_generated [OF len(1)] by blast
  have d: "decode_frame f = Some (so_header P ty ?st ?q len s)"
    using fw_codec.dec_enc [OF _ f(1)] st' by (simp add: header_wf_def so_header_def)
  obtain fs where fs: "sent (world s) = base @ fs" "run_log (g_config s) l fs" "fw_ok avail pending s"
    using ok by (auto simp: run_ok_def)
  have log: "run_log (g_config s)
      (l\<lparr>gl_sequences := (gl_sequences l)[i := gl_sequences l ! i + 1]\<rparr>) (fs @ [f])"
    by (rule run_log_snoc [OF fs(2) st d]) (use i f(3) len(2) in \<open>auto simp: so_header_def\<close>)
  note o = send_one_ok [OF L fs(3) st' f(1,2), of dl sch]
  note t = send_one_sent [OF S f(1,2), of dl sch]
  show "run_ok avail pending sent base (fst r) (snd r)"
    using o(1) t fs log
    by (auto simp: run_ok_def r_def send_next_def Let_def case_prod_unfold frame_simps)
  show "g_config (snd r) = g_config s" "g_state (snd r) = g_state s" "gen_handle (snd r) = gen_handle s"
    "tx_balance (g_metrics (snd r)) = tx_balance (g_metrics s)"
    "gl_start_us (fst r) = gl_start_us l" "gl_end_us (fst r) = gl_end_us l"
    using o(2) by (simp_all add: r_def send_next_def Let_def case_prod_unfold frame_simps)
qed

section \<open>Time\<close>

lemma clock_calls:
  assumes "clock_laws P clock"
  shows "clock w \<le> clock (snd (p_timer P w))" "clock w \<le> clock (snd (p_sem_take P t w))"
    "clock w \<le> clock (p_sem_give P w)" "clock w \<le> clock (snd (p_now_send P a d w))"
    "clock w \<le> clock (p_yield P w)" "fst (p_timer P w) = clock w"
  using assms by (simp_all only: clock_laws_def never_back_def)

lemma send_one_clock:
  assumes L: "clock_laws P clock"
  shows "clock (world s) \<le> clock (world (snd (send_one P ty st q len dl sch s)))"
proof -
  note c = clock_calls [OF L]
  let ?w1 = "snd (p_sem_take P (p_ms_to_ticks P 100) (world s))"
  let ?w2 = "snd (p_timer P ?w1)"
  have 1: "clock (world s) \<le> clock ?w1" "clock (world s) \<le> clock ?w2"
    using c(2) [of "world s" "p_ms_to_ticks P 100"] c(1) [of ?w1] by (auto intro: order_trans)
  have 2: "clock ?w2 \<le> clock (world (snd (radio_send_acquired P d s')))" if "world s' = ?w2" for d s'
    using that c(4) [of ?w2 "peer_mac (g_config s')" d]
      c(3) [of "snd (p_now_send P (peer_mac (g_config s')) d ?w2)"]
    by (auto simp: radio_send_acquired_def Let_def case_prod_unfold intro: order_trans)
  have 3: "clock (world s) \<le> clock (world (snd (radio_send_acquired P d s')))" if "world s' = ?w2" for d s'
    using 1(2) 2 [OF that] by (rule order_trans)
  have 4: "clock (world s) \<le> clock (p_yield P (world (snd (radio_send_acquired P d s'))))"
    if "world s' = ?w2" for d s'
    using 3 [OF that] c(5) by (rule order_trans)
  have 5: "clock (world s) \<le> clock (p_sem_give P ?w2)"
    using 1(2) c(3) by (rule order_trans)
  show ?thesis
    using 1 by (auto simp: send_one_def radio_acquire_tx_def radio_release_tx_def Let_def
        case_prod_unfold 5 split: bool.split option.split intro!: 3 4)
qed

section \<open>One turn\<close>

text \<open>What a turn of the loop establishes, from the state \<open>s\<close> with the locals \<open>l\<close>.\<close>

definition turn_ok ::
  "('w \<Rightarrow> nat) \<Rightarrow> ('w \<Rightarrow> nat) \<Rightarrow> ('w \<Rightarrow> u8 list list) \<Rightarrow> ('w \<Rightarrow> u64) \<Rightarrow> u8 list list \<Rightarrow>
   gen_local \<Rightarrow> 'w fw \<Rightarrow> gen_local \<times> 'w fw \<Rightarrow> bool" where
  "turn_ok avail pending sent clock base l s r \<longleftrightarrow>
     run_ok avail pending sent base (fst r) (snd r) \<and>
     g_config (snd r) = g_config s \<and> g_state (snd r) = g_state s \<and>
     gen_handle (snd r) = gen_handle s \<and>
     tx_balance (g_metrics (snd r)) = tx_balance (g_metrics s) \<and>
     gl_end_us (fst r) = gl_end_us l \<and> clock (world s) \<le> clock (world (snd r))"

lemma turn_ok_counters [simp]:
  "turn_ok avail pending sent clock base l s (l'\<lparr>gl_index := x\<rparr>, s') =
     turn_ok avail pending sent clock base l s (l', s')"
  "turn_ok avail pending sent clock base l s (l'\<lparr>gl_probe_index := x\<rparr>, s') =
     turn_ok avail pending sent clock base l s (l', s')"
  "turn_ok avail pending sent clock base l s (l'\<lparr>gl_background_index := x\<rparr>, s') =
     turn_ok avail pending sent clock base l s (l', s')"
  "turn_ok avail pending sent clock base l s (l'\<lparr>gl_next_probe_us := y\<rparr>, s') =
     turn_ok avail pending sent clock base l s (l', s')"
  "turn_ok avail pending sent clock base l s (l'\<lparr>gl_next_background_us := y\<rparr>, s') =
     turn_ok avail pending sent clock base l s (l', s')"
  by (simp_all add: turn_ok_def run_ok_def run_log_def)

lemma send_next_turn:
  assumes "slot_laws P avail pending" and "sent_laws P sent" and C: "clock_laws P clock"
    and "run_ok avail pending sent base l s" and "i < HARNESS_MAX_STREAMS"
    and "packet_len_ok len" "len \<in> {packet_size (g_config s), background_packet_size (g_config s)}"
  shows "turn_ok avail pending sent clock base l s (send_next P ty i len dl sch l s)"
proof -
  have "clock (world s) \<le> clock (world (snd (send_next P ty i len dl sch l s)))"
    using send_one_clock [OF C] by (simp add: send_next_def Let_def case_prod_unfold)
  then show ?thesis using send_next_run [OF assms(1,2,4-7)] by (simp add: turn_ok_def)
qed

lemma laws_keep_waiting:
  assumes "slot_laws P avail pending" "sent_laws P sent"
  shows "keeps_waiting P (slots avail pending)" "keeps_waiting P sent"
  using assms by (simp_all add: keeps_waiting_def slot_laws_def sent_laws_def neutral_calls_def)

text \<open>Waiting for the deadline first changes none of what \<open>turn_ok\<close> speaks of.\<close>

lemma wait_then_turn:
  assumes L: "slot_laws P avail pending" and S: "sent_laws P sent" and C: "clock_laws P clock"
    and ok: "run_ok avail pending sent base l s"
  obtains s' where "wait_deadline P d s = Some s'" "run_ok avail pending sent base l s'"
    "g_config s' = g_config s" "d \<le> clock (world s')"
    "\<And>r. turn_ok avail pending sent clock base l s' r \<Longrightarrow> turn_ok avail pending sent clock base l s r"
proof -
  obtain s' where s': "wait_deadline P d s = Some s'" "d \<le> clock (world s')"
    "clock (world s) \<le> clock (world s')"
    using wait_deadline_returns [OF C] by blast
  note f = wait_deadline_frame(1-6) [OF s'(1)]
    wait_deadline_frame(7) [OF s'(1) laws_keep_waiting(1) [OF L S]]
    wait_deadline_frame(7) [OF s'(1) laws_keep_waiting(2) [OF L S]]
  have "run_ok avail pending sent base l s'"
    using ok by (simp add: run_ok_def fw_ok_def slots_ok_def f)
  moreover have "turn_ok avail pending sent clock base l s r"
    if "turn_ok avail pending sent clock base l s' r" for r
    using that s'(3) by (auto simp: turn_ok_def f)
  ultimately show thesis using that s'(1,2) f(1) by blast
qed

lemma mod_stream_bound:
  fixes x :: u64 and k :: u16
  assumes "k \<noteq> 0"
  shows "unat (x mod ucast k) < unat k"
proof -
  have k: "unat (ucast k :: u64) = unat k" by (simp add: unat_ucast_up)
  then show ?thesis using assms by (simp add: unat_mod unat_gt_0)
qed

lemma background_streams_bound:
  assumes "streams c \<noteq> 0"
  shows "background_streams c \<noteq> 0" "unat (background_streams c) < HARNESS_MAX_STREAMS"
  using assms
  by (auto simp: background_streams_def HARNESS_MAX_STREAMS_def word_less_nat_alt not_less)

lemma gen_latency_turn_ok:
  assumes L: "slot_laws P avail pending" and S: "sent_laws P sent" and C: "clock_laws P clock"
    and ok: "run_ok avail pending sent base l s" and c: "gen_config_ok (g_config s)"
    and m: "mode (g_config s) = MODE_LATENCY_LOAD"
  shows "\<exists>r. gen_latency_turn P l s = Some r \<and> turn_ok avail pending sent clock base l s r"
proof -
  let ?c = "g_config s"
  let ?d = "if gl_next_probe_us l \<le> gl_next_background_us l then gl_next_probe_us l
            else gl_next_background_us l"
  obtain s' where s': "wait_deadline P ?d s = Some s'" "run_ok avail pending sent base l s'"
    "g_config s' = ?c"
    and t: "\<And>r. turn_ok avail pending sent clock base l s' r \<Longrightarrow> turn_ok avail pending sent clock base l s r"
    by (rule wait_then_turn [OF L S C ok, of ?d]) blast
  have c': "packet_len_ok (packet_size ?c)" "packet_len_ok (background_packet_size ?c)"
    "probe_rate ?c \<noteq> 0" "background_rate ?c \<noteq> 0" "streams ?c \<noteq> 0"
    using c m by (simp_all add: gen_config_ok_def)
  note b = background_streams_bound [OF c'(5)]
  show ?thesis
  proof (cases "gl_next_probe_us l \<le> gl_next_background_us l")
    case True
    let ?r = "send_next P PACKET_PING (HARNESS_MAX_STREAMS - 1) (packet_size ?c) ?d True l s'"
    have "turn_ok avail pending sent clock base l s' ?r"
      by (rule send_next_turn [OF L S C s'(2)]) (use c' s'(3) in \<open>auto simp: HARNESS_MAX_STREAMS_def\<close>)
    then show ?thesis
      using True s'(1) c'(3) t [of ?r]
      by (simp add: gen_latency_turn_def Let_def case_prod_unfold)
  next
    case False
    let ?i = "unat (gl_background_index l mod ucast (background_streams ?c))"
    let ?r = "send_next P PACKET_STREAM ?i (background_packet_size ?c) ?d True l s'"
    have "?i < HARNESS_MAX_STREAMS" using mod_stream_bound [OF b(1)] b(2) by (rule order_less_trans)
    then have "turn_ok avail pending sent clock base l s' ?r"
      by (rule send_next_turn [OF L S C s'(2)]) (use c' s'(3) in auto)
    then show ?thesis
      using False s'(1) c'(4) b(1) t [of ?r]
      by (simp add: gen_latency_turn_def Let_def case_prod_unfold)
  qed
qed

lemma gen_stream_turn_ok:
  assumes L: "slot_laws P avail pending" and S: "sent_laws P sent" and C: "clock_laws P clock"
    and ok: "run_ok avail pending sent base l s" and c: "gen_config_ok (g_config s)"
  shows "\<exists>r. gen_stream_turn P l s = Some r \<and> turn_ok avail pending sent clock base l s r"
proof -
  let ?c = "g_config s"
  let ?rate = "stream_rate ?c"
  let ?d = "if ?rate \<noteq> 0 then gl_start_us l + gl_index l * 1000000 div ?rate else 0"
  have c': "packet_len_ok (packet_size ?c)" "streams ?c \<noteq> 0" "unat (streams ?c) \<le> HARNESS_MAX_STREAMS"
    using c by (simp_all add: gen_config_ok_def)
  obtain s' where s': "(if ?rate \<noteq> 0 then wait_deadline P ?d s else Some s) = Some s'"
    "run_ok avail pending sent base l s'" "g_config s' = ?c"
    and t: "\<And>r. turn_ok avail pending sent clock base l s' r \<Longrightarrow> turn_ok avail pending sent clock base l s r"
  proof (cases "?rate = 0")
    case True
    then show thesis using that [of s] ok by simp
  next
    case False
    show thesis by (rule wait_then_turn [OF L S C ok, of ?d]) (use that False in auto)
  qed
  let ?i = "unat (gl_index l mod ucast (streams ?c))"
  let ?ty = "if mode ?c = MODE_PING then PACKET_PING else PACKET_STREAM"
  let ?r = "send_next P ?ty ?i (packet_size ?c) ?d (?rate \<noteq> 0) l s'"
  have "?i < HARNESS_MAX_STREAMS"
    using mod_stream_bound [OF c'(2)] c'(3) by (rule order_less_le_trans)
  then have "turn_ok avail pending sent clock base l s' ?r"
    by (rule send_next_turn [OF L S C s'(2)]) (use c' s'(3) in auto)
  then have "turn_ok avail pending sent clock base l s ?r" by (rule t)
  moreover have "gen_stream_turn P l s =
      Some ((fst ?r)\<lparr>gl_index := gl_index (fst ?r) + 1\<rparr>, snd ?r)"
    unfolding gen_stream_turn_def Let_def s'(1) case_prod_unfold using c'(2) by simp
  ultimately show ?thesis by simp
qed

lemma gen_turn_ok:
  assumes "slot_laws P avail pending" and "sent_laws P sent" and "clock_laws P clock"
    and "run_ok avail pending sent base l s" and "gen_config_ok (g_config s)"
  shows "\<exists>r. gen_turn P l s = Some r \<and> turn_ok avail pending sent clock base l s r"
  using gen_latency_turn_ok [OF assms] gen_stream_turn_ok [OF assms] by (simp add: gen_turn_def)

section \<open>The whole task\<close>

lemma gen_cond_step:
  assumes L: "slot_laws P avail pending" and S: "sent_laws P sent" and C: "clock_laws P clock"
    and ok: "run_ok avail pending sent base l s"
  shows "run_ok avail pending sent base l (snd (gen_cond P l s))"
    "g_config (snd (gen_cond P l s)) = g_config s" "g_state (snd (gen_cond P l s)) = g_state s"
    "g_metrics (snd (gen_cond P l s)) = g_metrics s"
    "gen_handle (snd (gen_cond P l s)) = gen_handle s"
    "fst (gen_cond P l s) \<longleftrightarrow> g_state s = STATE_RUNNING \<and> clock (world s) < gl_end_us l"
    "clock (world s) \<le> clock (world (snd (gen_cond P l s)))"
proof -
  have t: "slots avail pending (snd (p_timer P w)) = slots avail pending w"
    "sent (snd (p_timer P w)) = sent w" for w
    using L S by (simp_all add: slot_laws_def sent_laws_def neutral_calls_def keeps_def)
  show "run_ok avail pending sent base l (snd (gen_cond P l s))"
    using ok t by (auto simp: gen_cond_def run_ok_def fw_ok_def slots_ok_def Let_def case_prod_unfold)
  show "g_config (snd (gen_cond P l s)) = g_config s" "g_state (snd (gen_cond P l s)) = g_state s"
    "g_metrics (snd (gen_cond P l s)) = g_metrics s"
    "gen_handle (snd (gen_cond P l s)) = gen_handle s"
    "fst (gen_cond P l s) \<longleftrightarrow> g_state s = STATE_RUNNING \<and> clock (world s) < gl_end_us l"
    "clock (world s) \<le> clock (world (snd (gen_cond P l s)))"
    using clock_calls [OF C] by (simp_all add: gen_cond_def Let_def case_prod_unfold)
qed

text \<open>
  With a timer that advances, the loop ends, with every frame of the run on record and every
  attempt accounted for. While the run lasts it ends no earlier than the run's end.
\<close>

lemma gen_loop_returns:
  assumes L: "slot_laws P avail pending" and S: "sent_laws P sent" and C: "clock_laws P clock"
    and T: "ticking P clock"
    and "run_ok avail pending sent base l s" and "gen_config_ok (g_config s)"
  shows "\<exists>r. gen_loop P l s = Some r \<and> turn_ok avail pending sent clock base l s r \<and>
    (g_state s = STATE_RUNNING \<longrightarrow> gl_end_us l \<le> clock (world (snd r)))"
  using assms(5,6)
proof (induction "unat (- 1 - clock (world s))" arbitrary: l s rule: less_induct)
  case less
  let ?s1 = "snd (gen_cond P l s)"
  note g = gen_cond_step [OF L S C less.prems(1)]
  show ?case
  proof (cases "fst (gen_cond P l s)")
    case False
    then have eq: "gen_loop P l s = Some (l, ?s1)"
      by (simp add: gen_loop.simps [of P l s] Let_def case_prod_unfold)
    have "turn_ok avail pending sent clock base l s (l, ?s1)"
      using g by (simp add: turn_ok_def)
    moreover have "gl_end_us l \<le> clock (world ?s1)" if "g_state s = STATE_RUNNING"
      using that False g(6,7) by simp
    ultimately show ?thesis using eq by simp
  next
    case True
    obtain r where r: "gen_turn P l ?s1 = Some r" "turn_ok avail pending sent clock base l ?s1 r"
      using gen_turn_ok [OF L S C g(1)] less.prems(2) g(2) by auto
    have run: "g_state s = STATE_RUNNING" "clock (world s) < gl_end_us l" using True g(6) by simp_all
    have "clock (world s) < - 1" using run(2) word_n1_ge by (rule order_less_le_trans)
    then have "clock (world s) < clock (world ?s1)"
      using T run(1) by (simp add: ticking_def gen_cond_def Let_def case_prod_unfold)
    also have "\<dots> \<le> clock (world (snd r))" using r(2) by (simp add: turn_ok_def)
    finally have lt: "clock (world s) < clock (world (snd r))" .
    have prem: "run_ok avail pending sent base (fst r) (snd r)" "gen_config_ok (g_config (snd r))"
      "gl_end_us (fst r) = gl_end_us l" "g_state (snd r) = g_state s"
      using r(2) g(2,3) less.prems(2) by (simp_all add: turn_ok_def)
    obtain r' where r': "gen_loop P (fst r) (snd r) = Some r'"
      "turn_ok avail pending sent clock base (fst r) (snd r) r'"
      "g_state (snd r) = STATE_RUNNING \<longrightarrow> gl_end_us (fst r) \<le> clock (world (snd r'))"
      using less.hyps [OF unat_u64_room_less [OF lt] prem(1,2)] by blast
    have "gen_loop P l s = Some r'"
      using True r(1) r'(1) by (simp add: gen_loop.simps [of P l s] Let_def case_prod_unfold)
    moreover have "clock (world s) \<le> clock (world (snd r'))"
      using r'(2) by (intro order_trans [OF less_imp_le [OF lt]]) (simp add: turn_ok_def)
    then have "turn_ok avail pending sent clock base l s r'"
      using r(2) r'(2) g by (simp add: turn_ok_def)
    ultimately show ?thesis using r'(3) prem by simp
  qed
qed

lemma gen_begin_ok:
  assumes L: "slot_laws P avail pending" and S: "sent_laws P sent" and ok: "fw_ok avail pending s"
  shows "run_ok avail pending sent (sent (world s)) (fst (gen_begin P s)) (snd (gen_begin P s))"
    "g_config (snd (gen_begin P s)) = g_config s" "g_state (snd (gen_begin P s)) = g_state s"
    "tx_balance (g_metrics (snd (gen_begin P s))) = tx_balance (g_metrics s)"
    "gl_end_us (fst (gen_begin P s)) = fst (p_timer P (world s)) + duration_us (g_config s)"
proof -
  have t: "slots avail pending (snd (p_timer P w)) = slots avail pending w"
    "sent (snd (p_timer P w)) = sent w" for w
    using L S by (simp_all add: slot_laws_def sent_laws_def neutral_calls_def keeps_def)
  show "run_ok avail pending sent (sent (world s)) (fst (gen_begin P s)) (snd (gen_begin P s))"
    using ok t run_log_begin [of "g_config s" P s]
    by (simp add: run_ok_def fw_ok_def slots_ok_def) (simp add: gen_begin_def Let_def case_prod_unfold t)
  show "g_config (snd (gen_begin P s)) = g_config s" "g_state (snd (gen_begin P s)) = g_state s"
    "tx_balance (g_metrics (snd (gen_begin P s))) = tx_balance (g_metrics s)"
    "gl_end_us (fst (gen_begin P s)) = fst (p_timer P (world s)) + duration_us (g_config s)"
    by (simp_all add: gen_begin_def Let_def case_prod_unfold tx_balance_def)
qed

lemma gen_finish_ok:
  assumes L: "slot_laws P avail pending" and S: "sent_laws P sent" and ok: "fw_ok avail pending s"
  shows "fw_ok avail pending (gen_finish P s)" "sent (world (gen_finish P s)) = sent (world s)"
    "g_config (gen_finish P s) = g_config s" "\<not> gen_handle (gen_finish P s)"
    "g_state (gen_finish P s) = (if g_state s = STATE_ERROR then STATE_ERROR else STATE_FINISHED)"
    "tx_balance (g_metrics (gen_finish P s)) = tx_balance (g_metrics s)"
proof -
  have t: "slots avail pending (snd (p_timer P w)) = slots avail pending w"
    "sent (snd (p_timer P w)) = sent w" for w
    using L S by (simp_all add: slot_laws_def sent_laws_def neutral_calls_def keeps_def)
  show "fw_ok avail pending (gen_finish P s)" "sent (world (gen_finish P s)) = sent (world s)"
    "g_config (gen_finish P s) = g_config s" "\<not> gen_handle (gen_finish P s)"
    "g_state (gen_finish P s) = (if g_state s = STATE_ERROR then STATE_ERROR else STATE_FINISHED)"
    "tx_balance (g_metrics (gen_finish P s)) = tx_balance (g_metrics s)"
    using ok t
    by (simp_all add: gen_finish_def Let_def case_prod_unfold fw_ok_def slots_ok_def tx_balance_def)
qed

lemma generator_task_returns:
  assumes L: "slot_laws P avail pending" and S: "sent_laws P sent" and C: "clock_laws P clock"
    and T: "ticking P clock" and ok: "fw_ok avail pending s" and c: "gen_config_ok (g_config s)"
  shows "\<exists>s' fs l. generator_task P s = Some s' \<and> fw_ok avail pending s' \<and>
    sent (world s') = sent (world s) @ fs \<and> run_log (g_config s) l fs \<and>
    tx_balance (g_metrics s') = tx_balance (g_metrics s) \<and>
    g_state s' = (if g_state s = STATE_ERROR then STATE_ERROR else STATE_FINISHED) \<and> \<not> gen_handle s'"
proof -
  let ?l = "fst (gen_begin P s)" and ?s = "snd (gen_begin P s)"
  note b = gen_begin_ok [OF L S ok]
  obtain r where r: "gen_loop P ?l ?s = Some r"
    "turn_ok avail pending sent clock (sent (world s)) ?l ?s r"
    using gen_loop_returns [OF L S C T b(1)] b(2) c by auto
  then obtain fs where fs: "fw_ok avail pending (snd r)" "sent (world (snd r)) = sent (world s) @ fs"
    "run_log (g_config s) (fst r) fs"
    using b(2) by (auto simp: turn_ok_def run_ok_def)
  have "generator_task P s = Some (gen_finish P (snd r))"
    using r(1) by (simp add: generator_task_def Let_def case_prod_unfold)
  moreover have "g_state (snd r) = g_state s"
    "tx_balance (g_metrics (snd r)) = tx_balance (g_metrics s)"
    using r(2) b by (simp_all add: turn_ok_def)
  ultimately show ?thesis using gen_finish_ok [OF L S fs(1)] fs(2,3) by auto
qed

end
