(* ===== verification/Config.thy ===== *)
theory Config
  imports Cjson Generator_Run
begin

text \<open>
  The configuration parser of \<^verbatim>\<open>control.c\<close>: the lexical helpers and \<^verbatim>\<open>parse_config\<close>, in the three
  stages of the code (identity, radio, traffic). A failure is \<open>Inl\<close> of the message the code writes
  into \<open>why\<close>.
\<close>

section \<open>Characters\<close>

definition code :: "char \<Rightarrow> nat" where "code c = of_char c"

definition c_isspace :: "char \<Rightarrow> bool" where
  "c_isspace c \<longleftrightarrow> code c = 32 \<or> (9 \<le> code c \<and> code c \<le> 13)"

definition c_isupper :: "char \<Rightarrow> bool" where
  "c_isupper c \<longleftrightarrow> 65 \<le> code c \<and> code c \<le> 90"

definition c_tolower :: "char \<Rightarrow> char" where
  "c_tolower c = (if c_isupper c then char_of (code c + 32) else c)"

definition hex_value :: "char \<Rightarrow> int" where
  "hex_value c =
     (if 48 \<le> code c \<and> code c \<le> 57 then int (code c) - 48
      else let c = c_tolower c
           in if 97 \<le> code c \<and> code c \<le> 102 then int (code c) - 97 + 10 else -1)"

text \<open>
  \<^verbatim>\<open>sscanf\<close>'s \<^verbatim>\<open>%2x\<close> on the rest of the input: leading white space is skipped, then at most two
  characters of an optionally signed hexadecimal number are taken; \<^verbatim>\<open>0x\<close> starts a prefix whose digits
  no longer fit the width, a matching failure.
\<close>

fun scan_digits :: "string \<Rightarrow> (u32 \<times> string) option" where
  "scan_digits [] = None"
| "scan_digits [a] = (if 0 \<le> hex_value a then Some (word_of_int (hex_value a), []) else None)"
| "scan_digits (a # b # cs) =
     (if a = CHR ''+'' \<or> a = CHR ''-'' then
        if 0 \<le> hex_value b
        then Some (word_of_int (if a = CHR ''-'' then - hex_value b else hex_value b), cs)
        else None
      else if hex_value a < 0 then None
      else if 0 \<le> hex_value b then Some (word_of_int (16 * hex_value a + hex_value b), cs)
      else if a = CHR ''0'' \<and> (b = CHR ''x'' \<or> b = CHR ''X'') then None
      else Some (word_of_int (hex_value a), b # cs))"

definition scan_hex2 :: "string \<Rightarrow> (u32 \<times> string) option" where
  "scan_hex2 text = scan_digits (dropWhile c_isspace text)"

text \<open>\<open>scan_octets n\<close>: \<open>n + 1\<close> conversions with a colon between them; the rest is not looked at.\<close>

fun scan_octets :: "nat \<Rightarrow> string \<Rightarrow> u32 list option" where
  "scan_octets 0 text = (case scan_hex2 text of None \<Rightarrow> None | Some (v, r) \<Rightarrow> Some [v])"
| "scan_octets (Suc n) text =
     (case scan_hex2 text of
        Some (v, c # r) \<Rightarrow>
          if c = CHR '':'' then (case scan_octets n r of None \<Rightarrow> None | Some vs \<Rightarrow> Some (v # vs))
          else None
      | _ \<Rightarrow> None)"

definition parse_mac :: "string option \<Rightarrow> u8 list option" where
  "parse_mac text =
     (case text of
        None \<Rightarrow> None
      | Some t \<Rightarrow> (case scan_octets 5 t of None \<Rightarrow> None | Some vs \<Rightarrow> Some (map ucast vs)))"

fun parse_key_pairs :: "string \<Rightarrow> u8 list option" where
  "parse_key_pairs (a # b # cs) =
     (let high = hex_value a; low = hex_value b
      in if high < 0 \<or> low < 0 then None
         else case parse_key_pairs cs of
                None \<Rightarrow> None
              | Some ks \<Rightarrow> Some (word_of_int ((high * 16) OR low) # ks))"
| "parse_key_pairs _ = Some []"

definition parse_key :: "string option \<Rightarrow> u8 list option" where
  "parse_key text =
     (case text of
        None \<Rightarrow> None
      | Some t \<Rightarrow> if length t \<noteq> HARNESS_KEY_SIZE * 2 then None else parse_key_pairs t)"

definition channel_valid :: "bool \<Rightarrow> u8 \<Rightarrow> bool" where
  "channel_valid band5 chan =
     (if \<not> band5 then chan \<ge> 1 \<and> chan \<le> 14
      else chan \<in> {36, 40, 44, 48, 149, 153, 157, 161, 165})"

definition phy_valid :: "string option \<Rightarrow> bool \<Rightarrow> bool" where
  "phy_valid phy band5 =
     (case phy of
        None \<Rightarrow> False
      | Some p \<Rightarrow>
          if band5 \<and> p = ''1m'' then False
          else p \<in> set [''1m'', ''6m'', ''24m'', ''54m'', ''mcs0'', ''mcs7'', ''he-mcs0'', ''he-mcs7''])"

section \<open>The parser\<close>

definition UINT32_MAX_INT :: int where "UINT32_MAX_INT = 4294967295"

definition parse_role :: "string \<Rightarrow> harness_role option" where
  "parse_role name =
     (if name = ''generator'' then Some ROLE_GENERATOR
      else if name = ''sink'' then Some ROLE_SINK
      else if name = ''ping_initiator'' then Some ROLE_PING_INITIATOR
      else if name = ''echo_responder'' then Some ROLE_ECHO_RESPONDER
      else None)"

definition parse_mode :: "string \<Rightarrow> harness_mode option" where
  "parse_mode name =
     (if name = ''ping'' then Some MODE_PING
      else if name = ''stream'' then Some MODE_STREAM
      else if name = ''multi-stream'' then Some MODE_MULTI_STREAM
      else if name = ''saturation'' then Some MODE_SATURATION
      else if name = ''latency-under-load'' then Some MODE_LATENCY_LOAD
      else None)"

definition parse_identity :: "'j cjson \<Rightarrow> 'j \<Rightarrow> string + ('j \<times> 'j \<times> harness_config)" where
  "parse_identity J root =
     (let run = number_item J root ''run_id'' (d_int (-1));
          dur = number_item J root ''duration_us'' (d_int (-1))
      in case (object_item J root ''radio'', object_item J root ''traffic'',
               string_item J root ''role'', string_item J root ''peer_mac'') of
           (Some radio, Some traffic, Some role_name, Some peer) \<Rightarrow>
             if \<not> integer_in_range run 1 UINT32_MAX_INT \<or> \<not> integer_in_range dur 1 86400000000
             then Inl ''invalid run_id, duration_us, role, peer_mac, radio, or traffic''
             else case parse_mac (Some peer) of
                None \<Rightarrow> Inl ''peer_mac must be six hexadecimal octets''
              | Some mac \<Rightarrow>
                  (case parse_role role_name of
                     None \<Rightarrow> Inl ''unsupported role''
                   | Some r \<Rightarrow> Inr (radio, traffic, zero_config\<lparr>run_id := word_of_int (d_trunc run),
                       role := r, peer_mac := mac, duration_us := word_of_int (d_trunc dur)\<rparr>))
         | _ \<Rightarrow> Inl ''invalid run_id, duration_us, role, peer_mac, radio, or traffic'')"

definition country_ok :: "string \<Rightarrow> bool" where
  "country_ok c \<longleftrightarrow> length c = 2 \<and> c_isupper (c ! 0) \<and> c_isupper (c ! 1)"

definition tx_power_ok :: "cdouble \<Rightarrow> bool" where
  "tx_power_ok p \<longleftrightarrow> d_isfinite p \<and> \<not> d_less p (d_int 2) \<and> \<not> d_less (d_int 20) p \<and>
     d_is_integral (d_times4 p)"

text \<open>The configuration the radio stage builds from accepted values.\<close>

definition radio_fields ::
  "'j cjson \<Rightarrow> 'j \<Rightarrow> bool \<Rightarrow> cdouble \<Rightarrow> cdouble \<Rightarrow> string \<Rightarrow> string \<Rightarrow> harness_config \<Rightarrow> harness_config" where
  "radio_fields J radio b chan pw cc ph cfg =
     cfg\<lparr>band_5ghz := b, channel := word_of_int (d_trunc chan), country := take 2 cc,
       phy_rate := take 15 ph, tx_power_qdbm := word_of_int (d_trunc (d_times4 pw)),
       power_save := bool_item J radio ''power_save'' False,
       encryption := bool_item J radio ''encryption'' False\<rparr>"

definition parse_radio :: "'j cjson \<Rightarrow> 'j \<Rightarrow> harness_config \<Rightarrow> string + harness_config" where
  "parse_radio J radio cfg =
     (let chan = number_item J radio ''channel'' (d_int (-1));
          pw = number_item J radio ''tx_power_dbm'' (d_int (-1));
          phy = string_item J radio ''phy_rate''
      in case (string_item J radio ''band'', string_item J radio ''country'') of
           (Some band, Some cc) \<Rightarrow>
             if (band \<noteq> ''2.4ghz'' \<and> band \<noteq> ''5ghz'') \<or> \<not> country_ok cc \<or>
                \<not> integer_in_range chan 1 255 \<or> \<not> tx_power_ok pw
             then Inl ''invalid band, country, channel, or tx_power_dbm''
             else
               let b = (band = ''5ghz'')
               in if \<not> channel_valid b (word_of_int (d_trunc chan)) \<or> \<not> phy_valid phy b
                  then Inl ''unsupported channel or PHY rate for selected band''
                  else
                    let cfg = radio_fields J radio b chan pw cc (the phy) cfg
                    in if encryption cfg then
                         case parse_key (string_item J radio ''key'') of
                           None \<Rightarrow> Inl ''key must be 32 hexadecimal digits''
                         | Some k \<Rightarrow> Inr (cfg\<lparr>key := k\<rparr>)
                       else Inr cfg
         | _ \<Rightarrow> Inl ''invalid band, country, channel, or tx_power_dbm'')"

definition parse_traffic :: "'j cjson \<Rightarrow> 'j \<Rightarrow> harness_config \<Rightarrow> string + harness_config" where
  "parse_traffic J traffic cfg =
     (case string_item J traffic ''mode'' of
        None \<Rightarrow> Inl ''missing traffic.mode''
      | Some name \<Rightarrow>
     (case parse_mode name of
        None \<Rightarrow> Inl ''unsupported mode''
      | Some m \<Rightarrow>
     (let num = number_item J traffic;
          p_size = num ''packet_size'' (d_int (-1));
          p_streams = num ''streams'' (d_int 1);
          p_window = num ''tx_window'' (d_int 1);
          p_rate = num ''packet_rate_per_stream'' (d_int 0);
          p_probe = num ''probe_rate'' (d_int 0);
          p_bsize = num ''background_packet_size'' (d_int 0);
          p_brate = num ''background_rate'' (d_int 0)
      in if \<not> integer_in_range p_size (int BENCH_HEADER_SIZE) (int HARNESS_MAX_PACKET_SIZE) \<or>
            \<not> integer_in_range p_streams 1 (int HARNESS_MAX_STREAMS) \<or>
            \<not> integer_in_range p_rate 0 UINT32_MAX_INT \<or>
            \<not> integer_in_range p_window 1 (int HARNESS_MAX_TX_WINDOW) \<or>
            \<not> integer_in_range p_probe 0 UINT32_MAX_INT \<or>
            \<not> integer_in_range p_bsize 0 (int HARNESS_MAX_PACKET_SIZE) \<or>
            \<not> integer_in_range p_brate 0 UINT32_MAX_INT
         then Inl ''invalid traffic numeric field''
         else
           let cfg = cfg\<lparr>mode := m, packet_size := word_of_int (d_trunc p_size),
                 streams := word_of_int (d_trunc p_streams),
                 tx_window := word_of_int (d_trunc p_window),
                 rate_per_stream := word_of_int (d_trunc p_rate),
                 probe_rate := word_of_int (d_trunc p_probe),
                 background_packet_size := word_of_int (d_trunc p_bsize),
                 background_rate := word_of_int (d_trunc p_brate)\<rparr>
           in if mode cfg \<noteq> MODE_SATURATION \<and> mode cfg \<noteq> MODE_LATENCY_LOAD \<and>
                 rate_per_stream cfg = 0
              then Inl ''packet_rate_per_stream must be positive''
              else if mode cfg = MODE_LATENCY_LOAD \<and>
                 (probe_rate cfg = 0 \<or> background_rate cfg = 0 \<or>
                  unat (background_packet_size cfg) < BENCH_HEADER_SIZE)
              then Inl ''invalid latency-under-load rates or background size''
              else Inr cfg)))"

definition parse_config :: "'j cjson \<Rightarrow> 'j \<Rightarrow> string + harness_config" where
  "parse_config J root =
     (case parse_identity J root of
        Inl why \<Rightarrow> Inl why
      | Inr (radio, traffic, cfg) \<Rightarrow>
     (case parse_radio J radio cfg of
        Inl why \<Rightarrow> Inl why
      | Inr cfg \<Rightarrow> parse_traffic J traffic cfg))"

section \<open>What an accepted configuration satisfies\<close>

definition radio_config_ok :: "harness_config \<Rightarrow> bool" where
  "radio_config_ok c \<longleftrightarrow> channel_valid (band_5ghz c) (channel c) \<and>
     phy_valid (Some (phy_rate c)) (band_5ghz c) \<and> country_ok (country c) \<and>
     8 \<le> sint (tx_power_qdbm c) \<and> sint (tx_power_qdbm c) \<le> 80 \<and>
     (encryption c \<longrightarrow> length (key c) = HARNESS_KEY_SIZE)"

definition identity_ok :: "harness_config \<Rightarrow> bool" where
  "identity_ok c \<longleftrightarrow> run_id c \<noteq> 0 \<and> role c \<noteq> ROLE_NONE \<and> length (peer_mac c) = 6 \<and>
     0 < duration_us c \<and> duration_us c \<le> 86400000000"

definition traffic_ok :: "harness_config \<Rightarrow> bool" where
  "traffic_ok c \<longleftrightarrow> gen_config_ok c \<and> 1 \<le> unat (tx_window c) \<and>
     unat (tx_window c) \<le> HARNESS_MAX_TX_WINDOW \<and>
     unat (background_packet_size c) \<le> HARNESS_MAX_PACKET_SIZE \<and>
     (mode c \<in> {MODE_PING, MODE_STREAM, MODE_MULTI_STREAM} \<longrightarrow> stream_rate c \<noteq> 0)"

definition config_ok :: "harness_config \<Rightarrow> bool" where
  "config_ok c \<longleftrightarrow> identity_ok c \<and> radio_config_ok c \<and> traffic_ok c"

text \<open>The conversions of a number in range keep its value.\<close>

lemma unat_word_in_range:
  assumes "0 \<le> n" "n < 2 ^ LENGTH('a::len)"
  shows "unat (word_of_int n :: 'a word) = nat n"
  using assms by (simp add: unsigned_of_int take_bit_int_eq_self)

lemma scan_octets_length: "scan_octets n t = Some vs \<Longrightarrow> length vs = Suc n"
  by (induction n t arbitrary: vs rule: scan_octets.induct)
     (auto split: option.splits list.splits if_splits)

lemma parse_mac_length: "parse_mac t = Some m \<Longrightarrow> length m = 6"
  by (auto simp: parse_mac_def dest!: scan_octets_length split: option.splits)

lemma parse_key_length: "parse_key t = Some k \<Longrightarrow> length k = HARNESS_KEY_SIZE"
proof -
  have p: "length k = length t div 2" if "parse_key_pairs t = Some k" for t k
    using that by (induction t arbitrary: k rule: parse_key_pairs.induct)
      (auto simp: Let_def split: if_splits option.splits)
  show "parse_key t = Some k \<Longrightarrow> length k = HARNESS_KEY_SIZE"
    by (auto simp: parse_key_def dest!: p split: option.splits if_splits)
qed

lemma identity_accepted:
  assumes "parse_identity J root = Inr (radio, traffic, c)"
  shows "identity_ok c"
proof -
  define run where "run = number_item J root ''run_id'' (d_int (-1))"
  define dur where "dur = number_item J root ''duration_us'' (d_int (-1))"
  obtain r mac peer rn where *: "integer_in_range run 1 UINT32_MAX_INT"
    "integer_in_range dur 1 86400000000" "parse_mac (Some peer) = Some mac" "parse_role rn = Some r"
    "c = zero_config\<lparr>run_id := word_of_int (d_trunc run), role := r, peer_mac := mac,
       duration_us := word_of_int (d_trunc dur)\<rparr>"
    using assms unfolding parse_identity_def Let_def run_def [symmetric] dur_def [symmetric]
    by (auto split: option.splits if_splits)
  have run: "unat (word_of_int (d_trunc run) :: u32) = nat (d_trunc run)" "1 \<le> d_trunc run"
    using *(1) by (auto simp: integer_in_range_iff UINT32_MAX_INT_def intro!: unat_word_in_range)
  have dur: "unat (word_of_int (d_trunc dur) :: u64) = nat (d_trunc dur)"
    "1 \<le> d_trunc dur" "d_trunc dur \<le> 86400000000"
    using *(2) by (auto simp: integer_in_range_iff intro!: unat_word_in_range)
  have "(word_of_int (d_trunc run) :: u32) \<noteq> 0"
    using run by (metis nat_0_iff not_one_le_zero order.trans unat_0)
  moreover have "r \<noteq> ROLE_NONE" using *(4) by (auto simp: parse_role_def split: if_splits)
  ultimately show ?thesis
    using *(3,5) dur parse_mac_length
    by (auto simp: identity_ok_def word_less_nat_alt word_le_nat_alt)
qed

lemma tx_power_range:
  assumes "tx_power_ok p"
  shows "8 \<le> d_trunc (d_times4 p)" "d_trunc (d_times4 p) \<le> 80"
proof -
  obtain n k where p: "p = Finite n k"
    using assms by (cases p) (auto simp: tx_power_ok_def)
  have "d_le (d_int 2) p" "d_le p (d_int 20)"
    using assms by (auto simp: tx_power_ok_def p d_less_def d_int_def)
  then have "d_le (d_int 8) (d_times4 p)" "d_le (d_times4 p) (d_int 80)"
    by (simp_all add: p d_int_def)
  then show "8 \<le> d_trunc (d_times4 p)" "d_trunc (d_times4 p) \<le> 80"
    using assms by (simp_all add: tx_power_ok_def d_le_int_iff)
qed

lemma sint_u8_small: "0 \<le> n \<Longrightarrow> n < 128 \<Longrightarrow> sint (word_of_int n :: u8) = n"
  by (simp add: sint_uint unsigned_of_int take_bit_int_eq_self signed_take_bit_int_eq_self)

lemma phy_valid_length: "phy_valid (Some p) b \<Longrightarrow> take 15 p = p"
  by (auto simp: phy_valid_def split: if_splits)

lemma phy_valid_Some: "phy_valid phy b \<Longrightarrow> \<exists>p. phy = Some p"
  by (auto simp: phy_valid_def split: option.splits)

lemma country_ok_take: "country_ok c \<Longrightarrow> take 2 c = c"
  by (simp add: country_ok_def)

lemma parse_radio_InrD:
  assumes "parse_radio J radio c0 = Inr c"
  obtains b chan pw cc ph c1 where "country_ok cc" "tx_power_ok pw"
    "channel_valid b (word_of_int (d_trunc chan))" "phy_valid (Some ph) b"
    "c1 = radio_fields J radio b chan pw cc ph c0"
    "(\<not> encryption c1 \<and> c = c1) \<or> (\<exists>k. length k = HARNESS_KEY_SIZE \<and> c = c1\<lparr>key := k\<rparr>)"
proof -
  obtain band where band: "string_item J radio ''band'' = Some band"
    using assms by (cases "string_item J radio ''band''") (simp_all add: parse_radio_def Let_def)
  obtain cc where cc: "string_item J radio ''country'' = Some cc"
    using assms band
    by (cases "string_item J radio ''country''") (simp_all add: parse_radio_def Let_def)
  let ?chan = "number_item J radio ''channel'' (d_int (-1))"
  let ?pw = "number_item J radio ''tx_power_dbm'' (d_int (-1))"
  let ?phy = "string_item J radio ''phy_rate''"
  let ?b = "band = ''5ghz''"
  let ?c1 = "radio_fields J radio ?b ?chan ?pw cc (the ?phy) c0"
  have eq: "parse_radio J radio c0 =
    (if (band \<noteq> ''2.4ghz'' \<and> band \<noteq> ''5ghz'') \<or> \<not> country_ok cc \<or>
        \<not> integer_in_range ?chan 1 255 \<or> \<not> tx_power_ok ?pw
     then Inl ''invalid band, country, channel, or tx_power_dbm''
     else if \<not> channel_valid ?b (word_of_int (d_trunc ?chan)) \<or> \<not> phy_valid ?phy ?b
     then Inl ''unsupported channel or PHY rate for selected band''
     else if encryption ?c1 then
       case parse_key (string_item J radio ''key'') of
         None \<Rightarrow> Inl ''key must be 32 hexadecimal digits'' | Some k \<Rightarrow> Inr (?c1\<lparr>key := k\<rparr>)
     else Inr ?c1)"
    by (simp add: parse_radio_def Let_def band cc)
  have ok: "country_ok cc" "tx_power_ok ?pw" "channel_valid ?b (word_of_int (d_trunc ?chan))"
    "phy_valid ?phy ?b"
    using assms unfolding eq by (auto split: if_splits)
  obtain ph where ph: "?phy = Some ph" using phy_valid_Some [OF ok(4)] by blast
  have key: "(\<not> encryption ?c1 \<and> c = ?c1) \<or> (\<exists>k. length k = HARNESS_KEY_SIZE \<and> c = ?c1\<lparr>key := k\<rparr>)"
    using assms unfolding eq
    by (cases "encryption ?c1") (auto split: if_splits option.splits dest: parse_key_length)
  show thesis using that [OF ok(1,2,3)] ok(4) key ph by simp
qed

lemma radio_accepted:
  assumes "parse_radio J radio c0 = Inr c"
  shows "radio_config_ok c" "identity_ok c = identity_ok c0"
proof -
  obtain b chan pw cc ph c1 where *: "country_ok cc" "tx_power_ok pw"
    "channel_valid b (word_of_int (d_trunc chan))" "phy_valid (Some ph) b"
    and c1: "c1 = radio_fields J radio b chan pw cc ph c0"
    and c: "(\<not> encryption c1 \<and> c = c1) \<or> (\<exists>k. length k = HARNESS_KEY_SIZE \<and> c = c1\<lparr>key := k\<rparr>)"
    using assms by (rule parse_radio_InrD)
  note p = tx_power_range [OF *(2)]
  show "radio_config_ok c"
    using c * p
    by (auto simp: c1 radio_fields_def radio_config_ok_def sint_u8_small phy_valid_length
        country_ok_take)
  show "identity_ok c = identity_ok c0"
    using c by (auto simp: c1 radio_fields_def identity_ok_def)
qed

text \<open>Every rate the parser accepts has an entry in the rate table of the radio.\<close>

lemma make_rate_config_accepted:
  "radio_config_ok c \<Longrightarrow> \<exists>r. make_rate_config c = Some r"
  by (auto simp: radio_config_ok_def phy_valid_def make_rate_config_def Let_def split: if_splits)

lemma make_rate_config_Some_iff:
  "make_rate_config c \<noteq> None \<longleftrightarrow> phy_valid (Some (phy_rate c)) (band_5ghz c)"
  by (auto simp: phy_valid_def make_rate_config_def Let_def)

section \<open>The traffic stage\<close>

lemma ucast_rate_mult:
  "(ucast (a :: u32) :: u64) * ucast (b :: u16) = 0 \<longleftrightarrow> a = 0 \<or> b = 0"
proof -
  have u: "unat (ucast a :: u64) = unat a" "unat (ucast b :: u64) = unat b"
    by (simp_all add: unat_ucast_up)
  have "unat a * unat b < 2 ^ 32 * 2 ^ 16"
    using unsigned_less [of a] unsigned_less [of b] by (intro mult_strict_mono) simp_all
  then have "unat ((ucast a :: u64) * ucast b) = unat a * unat b"
    unfolding u [symmetric] by (intro unat_mult_lem [THEN iffD1]) simp
  then show ?thesis by (metis mult_eq_0_iff unat_eq_0)
qed

lemma parse_traffic_InrD:
  assumes "parse_traffic J traffic c0 = Inr c"
  shows "traffic_ok c" "identity_ok c = identity_ok c0" "radio_config_ok c = radio_config_ok c0"
proof -
  obtain name where name: "string_item J traffic ''mode'' = Some name"
    using assms by (cases "string_item J traffic ''mode''") (simp_all add: parse_traffic_def)
  obtain m where m: "parse_mode name = Some m"
    using assms name by (cases "parse_mode name") (simp_all add: parse_traffic_def)
  define n where "n = number_item J traffic"
  define f :: "string \<Rightarrow> int \<Rightarrow> int" where "f x d = d_trunc (n x (d_int d))" for x d
  let ?c1 = "c0\<lparr>mode := m, packet_size := word_of_int (f ''packet_size'' (-1)),
     streams := word_of_int (f ''streams'' 1), tx_window := word_of_int (f ''tx_window'' 1),
     rate_per_stream := word_of_int (f ''packet_rate_per_stream'' 0),
     probe_rate := word_of_int (f ''probe_rate'' 0),
     background_packet_size := word_of_int (f ''background_packet_size'' 0),
     background_rate := word_of_int (f ''background_rate'' 0)\<rparr>"
  have *: "28 \<le> f ''packet_size'' (-1)" "f ''packet_size'' (-1) \<le> 250"
    "1 \<le> f ''streams'' 1" "f ''streams'' 1 \<le> 16" "1 \<le> f ''tx_window'' 1" "f ''tx_window'' 1 \<le> 32"
    "0 \<le> f ''background_packet_size'' 0" "f ''background_packet_size'' 0 \<le> 250" "c = ?c1"
    "\<not> (m \<noteq> MODE_SATURATION \<and> m \<noteq> MODE_LATENCY_LOAD \<and> rate_per_stream ?c1 = 0)"
    "\<not> (m = MODE_LATENCY_LOAD \<and> (probe_rate ?c1 = 0 \<or> background_rate ?c1 = 0 \<or>
         unat (background_packet_size ?c1) < BENCH_HEADER_SIZE))"
    using assms
    unfolding parse_traffic_def Let_def name m option.case n_def [symmetric]
    by (auto simp: integer_in_range_iff f_def harness_limits BENCH_HEADER_SIZE_def split: if_splits)
  have u: "unat (packet_size c) = nat (f ''packet_size'' (-1))"
    "unat (streams c) = nat (f ''streams'' 1)" "unat (tx_window c) = nat (f ''tx_window'' 1)"
    "unat (background_packet_size c) = nat (f ''background_packet_size'' 0)"
    using * by (auto intro!: unat_word_in_range)
  have len: "packet_len_ok (packet_size c)" "m = MODE_LATENCY_LOAD \<Longrightarrow> packet_len_ok (background_packet_size c)"
    using * u by (auto simp: packet_len_ok_def BENCH_HEADER_SIZE_def harness_limits)
  have st: "streams c \<noteq> 0" "unat (streams c) \<le> HARNESS_MAX_STREAMS"
    using u(2) *(3,4) by (auto simp: harness_limits)
  have gen: "gen_config_ok c"
    using len st *(11) by (auto simp: gen_config_ok_def *(9))
  have rate: "stream_rate c \<noteq> 0" if "mode c \<in> {MODE_PING, MODE_STREAM, MODE_MULTI_STREAM}"
    using that st(1) *(10) by (auto simp: stream_rate_def ucast_rate_mult *(9))
  show "traffic_ok c"
    using gen rate u(3,4) *(5-8) by (auto simp: traffic_ok_def harness_limits)
  show "identity_ok c = identity_ok c0" "radio_config_ok c = radio_config_ok c0"
    unfolding *(9) by (simp_all add: identity_ok_def radio_config_ok_def)
qed

section \<open>The whole parser\<close>

lemma parse_config_accepted:
  assumes "parse_config J root = Inr c"
  shows "config_ok c"
proof -
  obtain radio traffic c0 c1 where 0: "parse_identity J root = Inr (radio, traffic, c0)"
    and 1: "parse_radio J radio c0 = Inr c1" and 2: "parse_traffic J traffic c1 = Inr c"
    using assms by (auto simp: parse_config_def split: sum.splits prod.splits)
  show ?thesis
    using identity_accepted [OF 0] radio_accepted [OF 1] parse_traffic_InrD [OF 2]
    by (simp add: config_ok_def)
qed

lemma config_okD:
  assumes "config_ok c"
  shows "gen_config_ok c" "unat (tx_window c) \<le> HARNESS_MAX_TX_WINDOW" "1 \<le> unat (tx_window c)"
    "\<exists>r. make_rate_config c = Some r" "run_id c \<noteq> 0"
  using assms make_rate_config_accepted
  by (simp_all add: config_ok_def traffic_ok_def identity_ok_def)

section \<open>The octets of a MAC address\<close>

text \<open>
  A well-formed address is read as written: two hexadecimal digits per octet, high digit first.
\<close>

lemma hex_value_bounds: "hex_value c < 16" "- 1 \<le> hex_value c"
proof -
  have "code (c_tolower c) < 256" by (simp add: code_def)
  then show "hex_value c < 16" "- 1 \<le> hex_value c" by (auto simp: hex_value_def Let_def)
qed

lemma scan_hex2_digits:
  assumes "0 \<le> hex_value a" "0 \<le> hex_value b" "\<not> c_isspace a"
  shows "scan_hex2 (a # b # cs) = Some (word_of_int (16 * hex_value a + hex_value b), cs)"
proof -
  have "a \<noteq> CHR ''+''" "a \<noteq> CHR ''-''" using assms(1) by (auto simp: hex_value_def code_def Let_def c_tolower_def c_isupper_def)
  then show ?thesis using assms by (simp add: scan_hex2_def)
qed

end
