(* ===== verification/Binary64.thy ===== *)
theory Binary64
  imports Cjson
begin

text \<open>
  Arithmetic on C doubles, as far as the report needs it: IEEE 754 round to nearest, ties to even,
  on magnitudes between the subnormals and the overflow threshold. \<open>round_bits p n\<close> rounds a natural
  number to \<open>p\<close> significant bits; \<open>p = 53\<close> for \<^verbatim>\<open>double\<close> and \<open>p = 113\<close> for the quadruple precision
  \<^verbatim>\<open>long double\<close> of the target.
\<close>

section \<open>Rounding\<close>

fun bitlen :: "nat \<Rightarrow> nat" where
  "bitlen n = (if n = 0 then 0 else Suc (bitlen (n div 2)))"

declare bitlen.simps [simp del]

definition rne_shift :: "nat \<Rightarrow> nat \<Rightarrow> nat" where
  "rne_shift n d =
     (let q = n div 2 ^ d; r = n mod 2 ^ d
      in if 2 * r < 2 ^ d then q else if 2 ^ d < 2 * r then q + 1 else if even q then q else q + 1)"

definition round_bits :: "nat \<Rightarrow> nat \<Rightarrow> nat" where
  "round_bits p n = (let d = bitlen n - p in rne_shift n d * 2 ^ d)"

definition round_int :: "nat \<Rightarrow> int \<Rightarrow> int" where
  "round_int p n = (if n < 0 then - int (round_bits p (nat (- n))) else int (round_bits p (nat n)))"

text \<open>Conversion from an integer type, product, difference, quotient and square root.\<close>

definition d_of_int :: "int \<Rightarrow> cdouble" where "d_of_int n = Finite (round_int 53 n) 0"

definition d_of_nat :: "nat \<Rightarrow> cdouble" where "d_of_nat n = d_of_int (int n)"

fun d_mul :: "cdouble \<Rightarrow> cdouble \<Rightarrow> cdouble" where
  "d_mul (Finite a k) (Finite b l) = Finite (round_int 53 (a * b)) (k + l)"
| "d_mul _ _ = NaN"

fun d_sub :: "cdouble \<Rightarrow> cdouble \<Rightarrow> cdouble" where
  "d_sub (Finite a k) (Finite b l) = Finite (round_int 53 (a * 2 ^ l - b * 2 ^ k)) (k + l)"
| "d_sub _ _ = NaN"

text \<open>
  The quotient \<open>a / b\<close> of naturals with \<open>p + 2\<close> or more bits and a sticky bit for the remainder, so
  that rounding it rounds the exact quotient. The result is scaled by \<open>2 ^ quot_scale\<close>.
\<close>

definition quot_scale :: "nat \<Rightarrow> nat \<Rightarrow> nat \<Rightarrow> nat" where
  "quot_scale p a b = p + 3 + bitlen b - bitlen a"

definition sticky_quot :: "nat \<Rightarrow> nat \<Rightarrow> nat \<Rightarrow> nat" where
  "sticky_quot p a b =
     (let n = a * 2 ^ quot_scale p a b in 2 * (n div b) + (if n mod b = 0 then 0 else 1))"

fun div_bits :: "nat \<Rightarrow> cdouble \<Rightarrow> cdouble \<Rightarrow> cdouble" where
  "div_bits p (Finite a k) (Finite b l) =
     (if b = 0 then NaN
      else let x = nat \<bar>a\<bar> * 2 ^ l; y = nat \<bar>b\<bar> * 2 ^ k;
               q = int (round_bits p (sticky_quot p x y))
           in Finite (if (a < 0) = (b < 0) then q else - q) (quot_scale p x y + 1))"
| "div_bits p _ _ = NaN"

definition d_div :: "cdouble \<Rightarrow> cdouble \<Rightarrow> cdouble" where "d_div = div_bits 53"

text \<open>Rounding a wider number to double precision.\<close>

fun d_narrow :: "cdouble \<Rightarrow> cdouble" where
  "d_narrow (Finite a k) = Finite (round_int 53 a) k"
| "d_narrow x = x"

text \<open>\<open>isqrt n\<close> is the integer square root, by bisection on the bits.\<close>

fun isqrt_bits :: "nat \<Rightarrow> nat \<Rightarrow> nat \<Rightarrow> nat" where
  "isqrt_bits 0 n r = r"
| "isqrt_bits (Suc i) n r =
     (let c = r + 2 ^ i in if c * c \<le> n then isqrt_bits i n c else isqrt_bits i n r)"

definition isqrt :: "nat \<Rightarrow> nat" where "isqrt n = isqrt_bits (bitlen n) n 0"

fun d_sqrt :: "cdouble \<Rightarrow> cdouble" where
  "d_sqrt (Finite a k) =
     (if a < 0 then NaN
      else let n = nat a * 2 ^ k * 2 ^ 128; r = isqrt n;
               s = 2 * r + (if r * r = n then 0 else 1)
           in Finite (int (round_bits 53 s)) (k + 65))"
| "d_sqrt x = x"

text \<open>\<^verbatim>\<open>ceil\<close> of a non-negative double.\<close>

fun d_ceil :: "cdouble \<Rightarrow> nat" where
  "d_ceil (Finite a k) = (nat a + (2 ^ k - 1)) div 2 ^ k"
| "d_ceil _ = 0"

section \<open>Facts about rounding\<close>

lemma bitlen_0 [simp]: "bitlen 0 = 0"
  by (subst bitlen.simps) simp

lemma bitlen_pos: "n \<noteq> 0 \<Longrightarrow> bitlen n = Suc (bitlen (n div 2))"
  by (subst bitlen.simps) simp

lemma bitlen_bounds: "n < 2 ^ bitlen n \<and> (n \<noteq> 0 \<longrightarrow> 2 ^ (bitlen n - 1) \<le> n)"
proof (induction n rule: less_induct)
  case (less n)
  show ?case
  proof (cases "n = 0")
    case False
    then have IH: "n div 2 < 2 ^ bitlen (n div 2)"
      "n div 2 \<noteq> 0 \<Longrightarrow> 2 ^ (bitlen (n div 2) - 1) \<le> n div 2"
      using less [of "n div 2"] by simp_all
    have lo: "2 ^ bitlen (n div 2) \<le> n"
    proof (cases "n div 2 = 0")
      case True
      then show ?thesis using False by simp
    next
      case False
      then show ?thesis using IH(2) by (simp add: bitlen_pos [OF False])
    qed
    have "n < 2 * 2 ^ bitlen (n div 2)" using IH(1) by linarith
    then show ?thesis using lo by (simp add: bitlen_pos [OF False])
  qed simp
qed

lemma bitlen_le: "n < 2 ^ k \<Longrightarrow> bitlen n \<le> k"
proof (rule ccontr)
  assume n: "n < 2 ^ k" and b: "\<not> bitlen n \<le> k"
  then have "n \<noteq> 0" by (cases n) auto
  then have "2 ^ (bitlen n - 1) \<le> n" using bitlen_bounds by blast
  moreover have "(2::nat) ^ k \<le> 2 ^ (bitlen n - 1)" using b by (intro power_increasing) auto
  ultimately show False using n by linarith
qed

lemma round_bits_exact: "n < 2 ^ p \<Longrightarrow> round_bits p n = n"
  using bitlen_le [of n p] by (simp add: round_bits_def rne_shift_def)

text \<open>
  Rounding at \<open>2 ^ d\<close> gives the nearest multiple: a number less than half a step from \<open>m * 2 ^ d\<close>
  rounds to \<open>m\<close>.
\<close>

lemma rne_shift_near:
  assumes "n = m * 2 ^ d + e \<or> n + e = m * 2 ^ d" and "2 * e < 2 ^ d"
  shows "rne_shift n d = m"
proof -
  have "e < 2 ^ d" using assms(2) by linarith
  show ?thesis
  proof (cases "n = m * 2 ^ d + e")
    case True
    then show ?thesis using assms(2) \<open>e < 2 ^ d\<close> by (simp add: rne_shift_def Let_def)
  next
    case False
    then have ne: "n + e = m * 2 ^ d" "e \<noteq> 0" using assms by auto
    then have "m \<noteq> 0" by (cases "m = 0") auto
    then obtain k where k: "m = Suc k" by (cases m) auto
    then have "n = k * 2 ^ d + (2 ^ d - e)" using ne \<open>e < 2 ^ d\<close> by simp
    moreover have "2 ^ d - e < 2 ^ d" using ne(2) by simp
    ultimately have "n div 2 ^ d = k" "n mod 2 ^ d = 2 ^ d - e" by simp_all
    moreover have "2 ^ d < 2 * (2 ^ d - e)" using assms(2) by linarith
    ultimately show ?thesis using k by (simp add: rne_shift_def Let_def)
  qed
qed

text \<open>Rounding never moves a number by more than half a step.\<close>

lemma rne_shift_error:
  "2 * (rne_shift n d * 2 ^ d) \<le> 2 * n + 2 ^ d" "2 * n \<le> 2 * (rne_shift n d * 2 ^ d) + 2 ^ d"
proof -
  let ?q = "n div 2 ^ d" and ?r = "n mod 2 ^ d"
  have n: "?q * 2 ^ d + ?r = n" by (rule div_mult_mod_eq)
  have r: "?r < 2 ^ d" by simp
  have D: "(?q + 1) * 2 ^ d = ?q * 2 ^ d + 2 ^ d" by simp
  consider "rne_shift n d = ?q" "2 * ?r \<le> 2 ^ d" | "rne_shift n d = ?q + 1" "2 ^ d \<le> 2 * ?r"
    by (cases "2 * ?r < 2 ^ d"; cases "2 ^ d < 2 * ?r"; cases "even ?q") (simp_all add: rne_shift_def)
  then have "2 * (rne_shift n d * 2 ^ d) \<le> 2 * n + 2 ^ d \<and> 2 * n \<le> 2 * (rne_shift n d * 2 ^ d) + 2 ^ d"
  proof cases
    case 1
    then have "rne_shift n d * 2 ^ d = ?q * 2 ^ d" by simp
    then show ?thesis using 1(2) n by linarith
  next
    case 2
    then have "rne_shift n d * 2 ^ d = ?q * 2 ^ d + 2 ^ d" by (simp only: D)
    then show ?thesis using 2(2) n r by linarith
  qed
  then show "2 * (rne_shift n d * 2 ^ d) \<le> 2 * n + 2 ^ d"
    "2 * n \<le> 2 * (rne_shift n d * 2 ^ d) + 2 ^ d"
    by simp_all
qed

text \<open>
  \<open>round_bits\<close> is off by at most half a unit of the last of the \<open>p\<close> bits, and returns \<open>m * 2 ^ d\<close>
  for a number closer than that to it.
\<close>

lemma round_bits_near:
  assumes "n = m * 2 ^ d + e \<or> n + e = m * 2 ^ d" and "2 * e < 2 ^ d" and "d = bitlen n - p"
  shows "round_bits p n = m * 2 ^ d"
  using rne_shift_near [OF assms(1,2)] assms(3) by (simp add: round_bits_def)

lemma round_bits_error:
  "\<bar>2 * (int (round_bits p n) - int n)\<bar> \<le> 2 ^ (bitlen n - p)"
proof -
  let ?D = "(2::nat) ^ (bitlen n - p)"
  have "2 * round_bits p n \<le> 2 * n + ?D" "2 * n \<le> 2 * round_bits p n + ?D"
    using rne_shift_error [of n "bitlen n - p"] by (simp_all add: round_bits_def Let_def)
  then have "2 * int (round_bits p n) \<le> 2 * int n + int ?D"
    "2 * int n \<le> 2 * int (round_bits p n) + int ?D" by linarith+
  then show ?thesis by (simp add: abs_le_iff)
qed

lemma round_int_of_nat: "round_int p (int n) = int (round_bits p n)"
  by (simp add: round_int_def)

lemma d_of_nat_exact: "n < 2 ^ 53 \<Longrightarrow> d_of_nat n = Finite (int n) 0"
  by (simp add: d_of_nat_def d_of_int_def round_int_def round_bits_exact)

lemma bitlen_num [simp]:
  "bitlen (numeral w) = Suc (bitlen (numeral w div 2))" "bitlen (Suc 0) = 1"
  by (simp_all add: bitlen_pos)

lemmas d_eval = d_div_def sticky_quot_def quot_scale_def round_bits_def rne_shift_def Let_def

end
