(* ===== verification/Report.thy ===== *)
theory Report
  imports Binary64 Metrics
begin

text \<open>
  The result report of \<^verbatim>\<open>metrics.c\<close>: percentiles by nearest rank over the sorted reservoir, the
  derived rates, and the document \<^verbatim>\<open>metrics_json\<close> builds. Building it sorts the reservoirs and sets
  the estimated loss, so it returns the new store too.
\<close>

section \<open>Percentiles\<close>

definition compare_u32 :: "u32 \<Rightarrow> u32 \<Rightarrow> int" where
  "compare_u32 a b = of_bool (a > b) - of_bool (a < b)"

text \<open>\<^verbatim>\<open>qsort\<close> of the filled part of the reservoir.\<close>

definition sort_reservoir :: "sample_distribution \<Rightarrow> sample_distribution" where
  "sort_reservoir d =
     (let n = unat (reservoir_count d)
      in d\<lparr>samples := sort (take n (samples d)) @ drop n (samples d)\<rparr>)"

text \<open>The double nearest to the decimal literal \<open>num / den\<close>.\<close>

definition quantile :: "nat \<Rightarrow> nat \<Rightarrow> cdouble" where
  "quantile num den = d_div (d_of_nat num) (d_of_nat den)"

definition nearest_rank :: "sample_distribution \<Rightarrow> cdouble \<Rightarrow> u32" where
  "nearest_rank d q =
     (if reservoir_count d = 0 then 0
      else let rank = d_ceil (d_mul q (d_of_nat (unat (reservoir_count d))));
               rank = (if rank < 1 then 1 else rank);
               rank = (if rank > unat (reservoir_count d) then unat (reservoir_count d) else rank)
           in samples d ! (rank - 1))"

section \<open>The documents\<close>

definition j_nat :: "nat \<Rightarrow> json" where "j_nat n = JNum (d_of_nat n)"

definition j_u64 :: "u64 \<Rightarrow> json" where "j_u64 v = j_nat (unat v)"

definition d_zero :: cdouble where "d_zero = Finite 0 0"

definition d_mean :: "int \<Rightarrow> nat \<Rightarrow> cdouble" where
  "d_mean acc n = (if n \<noteq> 0 then d_div (d_of_int acc) (d_of_nat n) else d_zero)"

text \<open>
  \<^verbatim>\<open>(double)(sum_sq / sample_count) - mean * mean\<close>, the quotient in quadruple precision, and its
  square root when positive.
\<close>

definition dist_stddev :: "sample_distribution \<Rightarrow> cdouble" where
  "dist_stddev d =
     (let mean = d_mean (uint (d_sum d)) (unat (sample_count d));
          variance = (if sample_count d \<noteq> 0
                      then d_sub (d_narrow (div_bits 113 (Finite (int (sum_sq d)) 0)
                                    (Finite (uint (sample_count d)) 0))) (d_mul mean mean)
                      else d_zero)
      in d_sqrt (if d_less d_zero variance then variance else d_zero))"

definition distribution_json :: "sample_distribution \<Rightarrow> (string \<times> json) list \<times> sample_distribution" where
  "distribution_json d =
     (let d = sort_reservoir d in
      ([(''sample_count'', j_u64 (sample_count d)),
        (''reservoir_count'', j_nat (unat (reservoir_count d))),
        (''min_us'', j_nat (if sample_count d \<noteq> 0 then unat (d_min d) else 0)),
        (''mean_us'', JNum (d_mean (uint (d_sum d)) (unat (sample_count d)))),
        (''p50_us'', j_nat (unat (nearest_rank d (quantile 50 100)))),
        (''p90_us'', j_nat (unat (nearest_rank d (quantile 90 100)))),
        (''p95_us'', j_nat (unat (nearest_rank d (quantile 95 100)))),
        (''p99_us'', j_nat (unat (nearest_rank d (quantile 99 100)))),
        (''p999_us'', j_nat (unat (nearest_rank d (quantile 999 1000)))),
        (''max_us'', j_nat (unat (d_max d))),
        (''stddev_us'', JNum (dist_stddev d))], d))"

text \<open>\<^verbatim>\<open>window ? count * scale / window : 0\<close> in doubles.\<close>

definition d_rate :: "u64 \<Rightarrow> nat \<Rightarrow> u64 \<Rightarrow> json" where
  "d_rate events scale window =
     JNum (if window \<noteq> 0 then d_div (d_mul (d_of_nat (unat events)) (d_of_nat scale)) (d_of_nat (unat window))
           else d_zero)"

definition span :: "u64 \<Rightarrow> u64 \<Rightarrow> u64" where "span a b = (if b > a then b - a else 0)"

definition requested_pps :: "harness_config \<Rightarrow> u64" where
  "requested_pps c =
     (if mode c = MODE_SATURATION then 0
      else if mode c = MODE_LATENCY_LOAD then ucast (background_rate c) + ucast (probe_rate c)
      else ucast (rate_per_stream c) * ucast (streams c))"

definition total_gaps :: "metrics \<Rightarrow> u64" where
  "total_gaps m = fold (\<lambda>s g. g + gaps s) (m_streams m) 0"

definition totals_json :: "harness_config \<Rightarrow> metrics \<Rightarrow> json" where
  "totals_json c m =
     (let t = totals m;
          elapsed = span (start_us m) (end_us m);
          tx_span = span (first_tx_us m) (last_tx_us m);
          rx_span = span (first_rx_us m) (last_rx_us m)
      in JObj [
        (''tx_requested'', j_u64 (t_tx_requested t)), (''tx_submitted'', j_u64 (t_tx_submitted t)),
        (''tx_bytes'', j_u64 (t_tx_bytes t)), (''send_cb_success'', j_u64 (t_send_cb_success t)),
        (''send_cb_failure'', j_u64 (t_send_cb_failure t)),
        (''send_api_failure'', j_u64 (t_send_api_failure t)),
        (''tx_slot_timeout'', j_u64 (t_tx_slot_timeout t)),
        (''rx_packets'', j_u64 (t_rx_packets t)), (''rx_bytes'', j_u64 (t_rx_bytes t)),
        (''duplicate'', j_u64 (t_duplicate t)), (''out_of_order'', j_u64 (t_out_of_order t)),
        (''estimated_loss'', j_u64 (t_estimated_loss t)), (''stale'', j_u64 (t_stale t)),
        (''invalid'', j_u64 (t_invalid t)), (''queue_drops'', j_u64 (t_queue_drops t)),
        (''elapsed_us'', j_u64 elapsed),
        (''first_tx_us'', j_u64 (first_tx_us m)), (''last_tx_us'', j_u64 (last_tx_us m)),
        (''tx_window_us'', j_u64 tx_span),
        (''first_rx_us'', j_u64 (first_rx_us m)), (''last_rx_us'', j_u64 (last_rx_us m)),
        (''rx_window_us'', j_u64 rx_span),
        (''requested_pps'', j_u64 (requested_pps c)),
        (''tx_pps'', d_rate (t_tx_submitted t) 1000000 elapsed),
        (''tx_pps_active'', d_rate (t_tx_submitted t) 1000000 tx_span),
        (''rx_pps'', d_rate (t_rx_packets t) 1000000 elapsed),
        (''rx_pps_active'', d_rate (t_rx_packets t) 1000000 rx_span),
        (''tx_application_bps'', d_rate (t_tx_bytes t) 8000000 elapsed),
        (''tx_application_bps_active'', d_rate (t_tx_bytes t) 8000000 tx_span),
        (''rx_application_bps'', d_rate (t_rx_bytes t) 8000000 elapsed),
        (''goodput_bps'', d_rate (t_rx_bytes t) 8000000 elapsed),
        (''goodput_bps_active'', d_rate (t_rx_bytes t) 8000000 rx_span)])"

definition rssi_json :: "metrics \<Rightarrow> json" where
  "rssi_json m = JObj [
     (''min'', JNum (d_of_int (if rssi_count m \<noteq> 0 then sint (rssi_min m) else 0))),
     (''max'', JNum (d_of_int (if rssi_count m \<noteq> 0 then sint (rssi_max m) else 0))),
     (''mean'', JNum (d_mean (sint (rssi_sum m)) (unat (rssi_count m)))),
     (''histogram_minus_127_to_0'', JArr (map (\<lambda>c. j_nat (unat c)) (rssi_hist m)))]"

definition stream_json :: "nat \<Rightarrow> stream_metric \<Rightarrow> json" where
  "stream_json i s = JObj [
     (''stream_id'', j_nat i),
     (''tx_requested'', j_u64 (sm_tx_requested s)), (''tx_submitted'', j_u64 (sm_tx_submitted s)),
     (''rx_packets'', j_u64 (sm_rx s)), (''missing'', j_u64 (gaps s)),
     (''duplicate'', j_u64 (sm_duplicate s)), (''out_of_order'', j_u64 (sm_out_of_order s))]"

definition streams_json :: "metrics \<Rightarrow> json" where
  "streams_json m = JArr (map (\<lambda>(i, s). stream_json i s)
     (filter (\<lambda>(i, s). sm_tx_requested s \<noteq> 0 \<or> sm_rx s \<noteq> 0) (enumerate 0 (m_streams m))))"

definition metrics_json :: "harness_config \<Rightarrow> metrics \<Rightarrow> json \<times> metrics" where
  "metrics_json c m =
     (let m = m\<lparr>totals := (totals m)\<lparr>t_estimated_loss := total_gaps m\<rparr>\<rparr>;
          totals_doc = totals_json c m;
          rssi_doc = rssi_json m;
          (rtt_ms, d) = distribution_json (rtt m);
          m = m\<lparr>rtt := d\<rparr>;
          rtt_doc = JObj (rtt_ms @
            [(''jitter_mean_abs_delta_us'', JNum (d_mean (uint (jitter_sum m)) (unat (jitter_count m)))),
             (''jitter_max_abs_delta_us'', j_nat (unat (jitter_max m)))]);
          (late_ms, d) = distribution_json (dispatch_lateness m);
          m = m\<lparr>dispatch_lateness := d\<rparr>
      in (JObj [(''totals'', totals_doc), (''rssi'', rssi_doc), (''rtt'', rtt_doc),
                (''dispatch_lateness'', JObj late_ms), (''streams'', streams_json m)], m))"

section \<open>Percentiles are exact nearest ranks\<close>

lemma ceil_div_unique:
  fixes x D q :: nat
  assumes "0 < D" "q * D < x" "x \<le> (q + 1) * D"
  shows "(x + (D - 1)) div D = q + 1"
proof (rule div_nat_eqI)
  show "D * (q + 1) \<le> x + (D - 1)" using assms by (simp add: algebra_simps)
  show "x + (D - 1) < D * Suc (q + 1)" using assms by (simp add: algebra_simps)
qed

lemma ceil_div_exact: "0 < D \<Longrightarrow> (q * D + (D - 1)) div D = (q :: nat)"
  by (rule div_nat_eqI) (simp_all add: algebra_simps)

text \<open>
  \<open>literal_ok S k num den\<close>: the literal \<open>S / 2 ^ k\<close> for \<open>num / den\<close>, off by \<open>lit_error / (den * 2 ^ k)\<close>,
  is close enough for counts up to 8192.
\<close>

definition lit_error :: "nat \<Rightarrow> nat \<Rightarrow> nat \<Rightarrow> nat \<Rightarrow> int" where
  "lit_error S k num den = \<bar>int S * int den - int num * 2 ^ k\<bar>"

definition literal_ok :: "nat \<Rightarrow> nat \<Rightarrow> nat \<Rightarrow> nat \<Rightarrow> bool" where
  "literal_ok S k num den \<longleftrightarrow> 0 < den \<and> S < 2 ^ k \<and> k \<le> 58 \<and> 30 \<le> k \<and>
     2 ^ 54 * lit_error S k num den < int den * int S \<and>
     8192 * lit_error S k num den + int den * 2 ^ 20 < 2 ^ k"

lemma literal_product:
  assumes ok: "literal_ok S k num den" and n: "0 < n" "n \<le> 8192"
  shows "\<bar>int (S * n) * int den - int (num * n) * 2 ^ k\<bar> = lit_error S k num den * int n"
    "bitlen (S * n) - 53 \<le> 18" "bitlen (S * n) - 53 \<le> k"
    "\<bar>2 * (int (round_bits 53 (S * n)) - int (S * n))\<bar> \<le> 2 ^ 18"
proof -
  have "int (S * n) * int den - int (num * n) * 2 ^ k = (int S * int den - int num * 2 ^ k) * int n"
    by (simp add: algebra_simps)
  then show "\<bar>int (S * n) * int den - int (num * n) * 2 ^ k\<bar> = lit_error S k num den * int n"
    by (simp add: lit_error_def abs_mult)
  have "S * n < 2 ^ k * 8192"
    using ok n by (intro mult_less_le_imp_less) (auto simp: literal_ok_def)
  then have "S * n < 2 ^ (k + 13)" by (simp add: power_add)
  then have "bitlen (S * n) \<le> k + 13" by (rule bitlen_le)
  then show d: "bitlen (S * n) - 53 \<le> 18" "bitlen (S * n) - 53 \<le> k"
    using ok unfolding literal_ok_def by linarith+
  then have "(2::int) ^ (bitlen (S * n) - 53) \<le> 2 ^ 18" by (intro power_increasing) auto
  then show "\<bar>2 * (int (round_bits 53 (S * n)) - int (S * n))\<bar> \<le> 2 ^ 18"
    using round_bits_error [of 53 "S * n"] by linarith
qed

lemma nat_abs_diff: "e = nat \<bar>int x - int y\<bar> \<Longrightarrow> x = y + e \<or> x + e = y"
  by (cases "y \<le> x") auto

text \<open>When \<open>den\<close> divides \<open>num * n\<close> the product rounds to the integer itself.\<close>

lemma rounded_product_exact:
  assumes ok: "literal_ok S k num den" and n: "0 < n" "n \<le> 8192" and q: "num * n = q * den"
  shows "round_bits 53 (S * n) = q * 2 ^ k"
proof -
  define Q where "Q = S * n"
  define d where "d = bitlen Q - 53"
  define e where "e = nat \<bar>int Q - int q * 2 ^ k\<bar>"
  note p = literal_product [OF ok n, folded Q_def d_def]
  have den: "0 < int den" using ok by (simp add: literal_ok_def)
  have "int Q * int den - int (num * n) * 2 ^ k = (int Q - int q * 2 ^ k) * int den"
    unfolding q of_nat_mult by (simp add: algebra_simps)
  then have e: "int e * int den = lit_error S k num den * int n"
    using p(1) by (simp add: e_def abs_mult)
  have "2 ^ 54 * lit_error S k num den * int n < int den * int S * int n"
    using ok n by (intro mult_strict_right_mono) (simp_all add: literal_ok_def)
  then have "2 ^ 54 * int e * int den < int Q * int den"
    using e by (simp add: Q_def algebra_simps)
  then have "2 ^ 54 * int e < int Q" using den by simp
  moreover have "int Q < 2 ^ (53 + d)"
  proof -
    have "Q < 2 ^ bitlen Q" using bitlen_bounds by blast
    also have "\<dots> \<le> 2 ^ (53 + d)" by (intro power_increasing) (simp_all add: d_def)
    finally show ?thesis by simp
  qed
  ultimately have "2 * int e < 2 ^ d" unfolding power_add by simp
  then have e2: "2 * e < 2 ^ d" by (simp flip: of_nat_less_iff [where ?'a = int])
  have dk: "d \<le> k" using p(3) by (simp only: d_def)
  then have m: "q * 2 ^ k = q * 2 ^ (k - d) * 2 ^ d"
    by (metis le_add_diff_inverse2 mult.assoc power_add)
  have "Q = q * 2 ^ k + e \<or> Q + e = q * 2 ^ k"
    using nat_abs_diff [of e Q "q * 2 ^ k"] by (simp add: e_def)
  then have "round_bits 53 Q = q * 2 ^ (k - d) * 2 ^ d"
    unfolding m by (rule round_bits_near [OF _ e2 d_def])
  then show ?thesis using m by (simp only: Q_def)
qed

lemma abs_twice_bounds:
  fixes a b c :: int
  shows "\<bar>2 * (a - b)\<bar> \<le> c \<Longrightarrow> 2 * b - c \<le> 2 * a" "\<bar>2 * (a - b)\<bar> \<le> c \<Longrightarrow> 2 * a \<le> 2 * b + c"
  by (simp_all add: abs_le_iff)

lemma between_arith:
  fixes a b c p q r e d :: int
  assumes "2 * b - d * 2 ^ 18 \<le> 2 * a" "2 * a \<le> 2 * b + d * 2 ^ 18" "c + r - e \<le> b" "b \<le> c + r + e"
    "p \<le> r" "r \<le> q - p" "e + d * 2 ^ 20 < p" "0 < d"
  shows "c < a \<and> a < c + q"
  using assms by simp

text \<open>Otherwise the product and its rounding lie strictly between the same integers.\<close>

lemma rounded_product_between:
  assumes ok: "literal_ok S k num den" and n: "0 < n" "n \<le> 8192"
    and K: "num * n = K * den + r" "0 < r" "r < den"
  shows "K * 2 ^ k < round_bits 53 (S * n)" "round_bits 53 (S * n) \<le> (K + 1) * 2 ^ k"
proof -
  define Q where "Q = int (S * n)"
  define R where "R = int (round_bits 53 (S * n))"
  let ?D = "int den" and ?P = "(2::int) ^ k"
  note p = literal_product [OF ok n, folded Q_def R_def]
  have den: "0 < ?D" using ok by (simp add: literal_ok_def)
  have "0 \<le> lit_error S k num den" by (simp add: lit_error_def)
  then have "lit_error S k num den * int n \<le> lit_error S k num den * 8192"
    using n by (intro mult_left_mono) simp_all
  then have E: "lit_error S k num den * int n + ?D * 2 ^ 20 < ?P"
    using ok unfolding literal_ok_def by linarith
  have N: "int (num * n) * ?P = int K * ?D * ?P + int r * ?P"
    unfolding K(1) by (simp add: algebra_simps)
  have Q: "int K * ?D * ?P + int r * ?P - lit_error S k num den * int n \<le> Q * ?D"
    "Q * ?D \<le> int K * ?D * ?P + int r * ?P + lit_error S k num den * int n"
    using p(1) N by linarith+
  have "\<bar>2 * (R - Q)\<bar> * ?D \<le> 2 ^ 18 * ?D" using p(4) den by (intro mult_right_mono) simp_all
  then have "\<bar>2 * (R * ?D - Q * ?D)\<bar> \<le> ?D * 2 ^ 18"
    using den by (simp add: abs_mult left_diff_distrib [symmetric])
  then have RQ: "2 * (Q * ?D) - ?D * 2 ^ 18 \<le> 2 * (R * ?D)" "2 * (R * ?D) \<le> 2 * (Q * ?D) + ?D * 2 ^ 18"
    using abs_twice_bounds by blast+
  have "?P \<le> int r * ?P" "int r * ?P \<le> (?D - 1) * ?P" using K(2,3) by (auto intro: mult_right_mono)
  then have r: "?P \<le> int r * ?P" "int r * ?P \<le> ?D * ?P - ?P" by (simp_all add: left_diff_distrib)
  have "int K * ?D * ?P < R * ?D \<and> R * ?D < int K * ?D * ?P + ?D * ?P"
    by (rule between_arith [OF RQ Q r E den])
  then have "(int K * ?P) * ?D < R * ?D" "R * ?D < ((int K + 1) * ?P) * ?D"
    by (simp_all add: algebra_simps)
  then have "int K * ?P < R" "R < (int K + 1) * ?P" using den by simp_all
  then have "int (K * 2 ^ k) < int (round_bits 53 (S * n))"
    "int (round_bits 53 (S * n)) < int ((K + 1) * 2 ^ k)"
    by (simp_all add: R_def distrib_right)
  then show "K * 2 ^ k < round_bits 53 (S * n)" "round_bits 53 (S * n) \<le> (K + 1) * 2 ^ k"
    by (simp_all only: of_nat_less_iff less_imp_le)
qed

lemma rounded_rank:
  assumes ok: "literal_ok S k num den" and n: "0 < n" "n \<le> 8192"
  shows "(round_bits 53 (S * n) + (2 ^ k - 1)) div 2 ^ k = (num * n + (den - 1)) div den"
proof -
  have den: "0 < den" using ok by (simp add: literal_ok_def)
  define K where "K = num * n div den"
  have N: "num * n = K * den + num * n mod den" by (simp add: K_def)
  show ?thesis
  proof (cases "num * n mod den = 0")
    case True
    then have q: "num * n = K * den" using N by simp
    show ?thesis
      using ceil_div_exact [of "2 ^ k" K] ceil_div_exact [OF den, of K]
      by (simp only: rounded_product_exact [OF ok n q] q zero_less_power zero_less_numeral)
  next
    case False
    then have r: "0 < num * n mod den" "num * n mod den < den" using den by simp_all
    have "(round_bits 53 (S * n) + (2 ^ k - 1)) div 2 ^ k = K + 1"
      by (rule ceil_div_unique [OF _ rounded_product_between [OF ok n N r]]) simp
    moreover have "(num * n + (den - 1)) div den = K + 1"
    proof (rule ceil_div_unique [OF den])
      show "K * den < num * n" using N r by linarith
      show "num * n \<le> (K + 1) * den" using N r by simp
    qed
    ultimately show ?thesis by simp
  qed
qed

definition rank_of :: "nat \<Rightarrow> nat \<Rightarrow> nat \<Rightarrow> nat" where
  "rank_of num den n = (num * n + (den - 1)) div den"

lemma rank_of_bounds:
  assumes "0 < num" "num \<le> den" "0 < n"
  shows "1 \<le> rank_of num den n" "rank_of num den n \<le> n"
    "num * n \<le> den * rank_of num den n" "den * (rank_of num den n - 1) < num * n"
proof -
  have den: "0 < den" using assms by simp
  let ?x = "num * n + (den - 1)"
  have d: "?x = rank_of num den n * den + ?x mod den" "?x mod den < den"
    using den by (simp_all add: rank_of_def)
  then have "num * n + (den - 1) < rank_of num den n * den + den" by linarith
  then have "num * n \<le> rank_of num den n * den" using den by linarith
  then show up: "num * n \<le> den * rank_of num den n" by (simp only: mult.commute)
  have pos: "0 < num * n" using assms by simp
  then show one: "1 \<le> rank_of num den n" using up by (cases "rank_of num den n") auto
  have "num * n \<le> n * den" using assms(2) by (simp add: mult.commute)
  then have "?x div den \<le> (n * den + (den - 1)) div den" by (intro div_le_mono) simp
  then show "rank_of num den n \<le> n" using ceil_div_exact [OF den, of n] by (simp only: rank_of_def)
  have "rank_of num den n * den \<le> num * n + (den - 1)" using d by linarith
  then show "den * (rank_of num den n - 1) < num * n"
    using one den by (cases "rank_of num den n") (simp_all add: algebra_simps)
qed

lemma nearest_rank_literal:
  assumes ok: "literal_ok S k num den" and q: "0 < num" "num \<le> den"
    and n: "reservoir_count d \<noteq> 0" "unat (reservoir_count d) \<le> 8192"
  shows "nearest_rank d (Finite (int S) k) = samples d ! (rank_of num den (unat (reservoir_count d)) - 1)"
proof -
  let ?n = "unat (reservoir_count d)"
  have n0: "0 < ?n" using n(1) by (simp add: unat_gt_0)
  have "d_ceil (d_mul (Finite (int S) k) (d_of_nat ?n)) = rank_of num den ?n"
  proof -
    have "d_of_nat ?n = Finite (int ?n) 0" using n(2) by (intro d_of_nat_exact) simp
    moreover have "round_int 53 (int S * int ?n) = int (round_bits 53 (S * ?n))"
      by (simp only: of_nat_mult [symmetric] round_int_of_nat)
    ultimately show ?thesis
      using rounded_rank [OF ok n0 n(2)] by (simp add: rank_of_def)
  qed
  then show ?thesis
    using rank_of_bounds [OF q n0] n(1) by (simp add: nearest_rank_def Let_def)
qed

text \<open>The five literals of the report.\<close>

lemma report_literals:
  "\<exists>S k. quantile 50 100 = Finite (int S) k \<and> literal_ok S k 50 100"
  "\<exists>S k. quantile 90 100 = Finite (int S) k \<and> literal_ok S k 90 100"
  "\<exists>S k. quantile 95 100 = Finite (int S) k \<and> literal_ok S k 95 100"
  "\<exists>S k. quantile 99 100 = Finite (int S) k \<and> literal_ok S k 99 100"
  "\<exists>S k. quantile 999 1000 = Finite (int S) k \<and> literal_ok S k 999 1000"
proof -
  note e = quantile_def d_of_nat_exact d_eval literal_ok_def lit_error_def
  show "\<exists>S k. quantile 50 100 = Finite (int S) k \<and> literal_ok S k 50 100"
    by (rule exI [of _ 144115188075855872], rule exI [of _ 58]) (simp add: e)
  show "\<exists>S k. quantile 90 100 = Finite (int S) k \<and> literal_ok S k 90 100"
    by (rule exI [of _ 129703669268270288], rule exI [of _ 57]) (simp add: e)
  show "\<exists>S k. quantile 95 100 = Finite (int S) k \<and> literal_ok S k 95 100"
    by (rule exI [of _ 136909428672063072], rule exI [of _ 57]) (simp add: e)
  show "\<exists>S k. quantile 99 100 = Finite (int S) k \<and> literal_ok S k 99 100"
    by (rule exI [of _ 142674036195097312], rule exI [of _ 57]) (simp add: e)
  show "\<exists>S k. quantile 999 1000 = Finite (int S) k \<and> literal_ok S k 999 1000"
    by (rule exI [of _ 143971072887780016], rule exI [of _ 57]) (simp add: e)
qed

section \<open>What a nearest rank means\<close>

text \<open>
  At least the fraction \<open>num / den\<close> of the samples is at most the reported value, and less than
  that fraction is below it.
\<close>

definition is_percentile :: "nat \<Rightarrow> nat \<Rightarrow> u32 list \<Rightarrow> u32 \<Rightarrow> bool" where
  "is_percentile num den xs v \<longleftrightarrow> v \<in> set xs \<and>
     num * length xs \<le> den * length (filter (\<lambda>x. x \<le> v) xs) \<and>
     den * length (filter (\<lambda>x. x < v) xs) < num * length xs"

lemma length_filter_sorted:
  assumes "sorted xs" "r < length xs"
  shows "r + 1 \<le> length (filter (\<lambda>x. x \<le> xs ! r) xs)" "length (filter (\<lambda>x. x < xs ! r) xs) \<le> r"
proof -
  have le: "x \<le> xs ! r" if "x \<in> set (take (Suc r) xs)" for x
    using that assms by (auto simp: in_set_conv_nth less_Suc_eq_le intro!: sorted_nth_mono)
  have "length (take (Suc r) xs) = length (filter (\<lambda>x. x \<le> xs ! r) (take (Suc r) xs))"
    using le by (simp add: filter_id_conv)
  also have "\<dots> \<le> length (filter (\<lambda>x. x \<le> xs ! r) (take (Suc r) xs @ drop (Suc r) xs))"
    by (simp only: filter_append length_append)
  finally show "r + 1 \<le> length (filter (\<lambda>x. x \<le> xs ! r) xs)" using assms(2) by simp
  have ge: "\<not> x < xs ! r" if "x \<in> set (drop r xs)" for x
    using that assms by (auto simp: in_set_conv_nth not_less intro!: sorted_nth_mono)
  have "length (filter (\<lambda>x. x < xs ! r) (take r xs @ drop r xs)) \<le> r"
    using ge by (simp only: filter_append length_append) (simp add: filter_empty_conv [THEN iffD2] le_trans [OF length_filter_le])
  then show "length (filter (\<lambda>x. x < xs ! r) xs) \<le> r" by simp
qed

lemma nearest_rank_percentile:
  assumes q: "0 < num" "num \<le> den" and xs: "xs \<noteq> []"
  shows "is_percentile num den xs (sort xs ! (rank_of num den (length xs) - 1))"
proof -
  let ?n = "length xs" and ?ys = "sort xs"
  let ?r = "rank_of num den ?n - 1"
  have n: "0 < ?n" using xs by simp
  note b = rank_of_bounds [OF q n]
  have r: "?r < length ?ys" "?r + 1 = rank_of num den ?n" using b by simp_all
  note f = length_filter_sorted [OF sorted_sort r(1)]
  have eq: "length (filter P xs) = length (filter P ?ys)" for P
    by (metis mset_filter mset_sort size_mset)
  have "num * ?n \<le> den * length (filter (\<lambda>x. x \<le> ?ys ! ?r) ?ys)"
  proof (rule order_trans [OF b(3) mult_le_mono2])
    show "rank_of num den ?n \<le> length (filter (\<lambda>x. x \<le> ?ys ! ?r) ?ys)" using f(1) r(2) by simp
  qed
  moreover have "den * length (filter (\<lambda>x. x < ?ys ! ?r) ?ys) < num * ?n"
    by (rule order_le_less_trans [OF mult_le_mono2 [OF f(2)] b(4)])
  moreover have "?ys ! ?r \<in> set xs" using nth_mem [OF r(1)] by (simp only: set_sort)
  ultimately show ?thesis by (simp only: is_percentile_def eq)
qed

section \<open>The percentiles of a distribution\<close>

lemma sort_reservoir_fields [simp]:
  "reservoir_count (sort_reservoir d) = reservoir_count d"
  "sample_count (sort_reservoir d) = sample_count d" "d_sum (sort_reservoir d) = d_sum d"
  "sum_sq (sort_reservoir d) = sum_sq d" "d_min (sort_reservoir d) = d_min d"
  "d_max (sort_reservoir d) = d_max d"
  by (simp_all add: sort_reservoir_def Let_def)

lemma sort_reservoir_sorts:
  assumes "unat (reservoir_count d) \<le> length (samples d)"
  shows "reservoir (sort_reservoir d) = sort (reservoir d)"
    "length (samples (sort_reservoir d)) = length (samples d)"
  using assms by (simp_all add: sort_reservoir_def reservoir_def Let_def)

text \<open>
  The comparison function is a total order with equality only on equal samples, so there is one
  sorted arrangement for \<^verbatim>\<open>qsort\<close> to produce.
\<close>

lemma compare_u32_sorted_unique:
  assumes "mset ys = mset xs" and "sorted_wrt (\<lambda>a b. compare_u32 a b \<le> 0) ys"
  shows "ys = sort xs"
proof (rule properties_for_sort [symmetric])
  have "(\<lambda>a b. compare_u32 a b \<le> 0) = (\<le>)"
    by (auto simp: compare_u32_def fun_eq_iff split: if_splits)
  then show "sorted ys" using assms(2) by simp
qed (rule assms(1))

lemma reported_percentile:
  assumes ok: "literal_ok S k num den" and q: "0 < num" "num \<le> den"
    and wf: "dist_wf d" and n: "reservoir_count d \<noteq> 0"
  shows "is_percentile num den (reservoir d) (nearest_rank (sort_reservoir d) (Finite (int S) k))"
proof -
  note b = dist_wf_bounds [OF wf]
  let ?n = "unat (reservoir_count d)"
  have len: "length (reservoir d) = ?n" using b by (simp add: reservoir_def)
  have n0: "0 < ?n" using n by (simp add: unat_gt_0)
  have "nearest_rank (sort_reservoir d) (Finite (int S) k) =
      samples (sort_reservoir d) ! (rank_of num den ?n - 1)"
    using nearest_rank_literal [OF ok q, of "sort_reservoir d"] n b
    by (simp add: METRIC_SAMPLE_CAPACITY_def)
  also have "\<dots> = sort (reservoir d) ! (rank_of num den (length (reservoir d)) - 1)"
    using rank_of_bounds(1,2) [OF q n0] b sort_reservoir_sorts(1) [of d, symmetric] len
    by (simp add: reservoir_def [of "sort_reservoir d"])
  also have "is_percentile num den (reservoir d) \<dots>"
    by (rule nearest_rank_percentile [OF q]) (use len n0 in auto)
  finally show ?thesis .
qed

lemma report_percentiles:
  assumes "dist_wf d" and "reservoir_count d \<noteq> 0"
  shows "is_percentile 50 100 (reservoir d) (nearest_rank (sort_reservoir d) (quantile 50 100))"
    "is_percentile 90 100 (reservoir d) (nearest_rank (sort_reservoir d) (quantile 90 100))"
    "is_percentile 95 100 (reservoir d) (nearest_rank (sort_reservoir d) (quantile 95 100))"
    "is_percentile 99 100 (reservoir d) (nearest_rank (sort_reservoir d) (quantile 99 100))"
    "is_percentile 999 1000 (reservoir d) (nearest_rank (sort_reservoir d) (quantile 999 1000))"
  using report_literals reported_percentile [OF _ _ _ assms] by force+

end
