(* ===== verification/Control.thy ===== *)
theory Control
  imports Config Report
begin

text \<open>
  The command loop of \<^verbatim>\<open>control.c\<close>. \<open>dispatch\<close> handles one command. The commands \<^verbatim>\<open>stop\<close> and \<^verbatim>\<open>result\<close>
  wait for the generator and drain the event queue; other tasks run while they wait, so what is
  left to do then is a \<open>job\<close>: the sequence of waits in the order of the code, and the reply. A
  phase is one turn of a waiting loop or one blocking call. \<open>run_phases\<close> runs them with nothing in
  between, which is the code's \<^verbatim>\<open>generator_wait_stopped(...) && drain_measurement_events()\<close>.
\<close>

section \<open>Replies\<close>

definition response :: "cdouble \<Rightarrow> bool \<Rightarrow> (string \<times> json) list" where
  "response cid ok = [(''type'', JStr ''response''), (''id'', JNum cid), (''ok'', JBool ok)]"

definition send_json :: "'w platform \<Rightarrow> json \<Rightarrow> 'w fw \<Rightarrow> 'w fw" where
  "send_json P doc s = exec (p_send_json P doc) s"

definition error_json :: "cdouble \<Rightarrow> string \<Rightarrow> string \<Rightarrow> json" where
  "error_json cid err message =
     JObj (response cid False @ [(''code'', JStr err), (''message'', JStr message)])"

definition send_error :: "'w platform \<Rightarrow> cdouble \<Rightarrow> string \<Rightarrow> string \<Rightarrow> 'w fw \<Rightarrow> 'w fw" where
  "send_error P cid err message s = send_json P (error_json cid err message) s"

definition send_state :: "'w platform \<Rightarrow> cdouble \<Rightarrow> 'w fw \<Rightarrow> 'w fw" where
  "send_state P cid s =
     send_json P (JObj (response cid True @ [(''state'', JStr (harness_state_name (g_state s)))])) s"

definition boot_id :: "'w platform \<Rightarrow> 'w fw \<Rightarrow> u32 \<times> 'w fw" where
  "boot_id P s =
     (let s = (if boot_static s = 0
               then let (r, s) = call (p_random P) s in s\<lparr>boot_static := r\<rparr> else s)
      in (boot_static s, s))"

definition hex_digit :: "nat \<Rightarrow> char" where
  "hex_digit n = ''0123456789abcdef'' ! (n mod 16)"

definition hex2 :: "u8 \<Rightarrow> string" where
  "hex2 b = [hex_digit (unat b div 16), hex_digit (unat b mod 16)]"

text \<open>\<^verbatim>\<open>"%02x:%02x:%02x:%02x:%02x:%02x"\<close>\<close>

fun format_mac :: "u8 list \<Rightarrow> string" where
  "format_mac [] = []"
| "format_mac [b] = hex2 b"
| "format_mac (b # bs) = hex2 b @ CHR '':'' # format_mac bs"

definition rate_names :: "string list" where
  "rate_names = [''1m'', ''6m'', ''24m'', ''54m'', ''mcs0'', ''mcs7'', ''he-mcs0'', ''he-mcs7'']"

definition info_json :: "'w platform \<Rightarrow> u8 list \<Rightarrow> u32 \<Rightarrow> json" where
  "info_json P mac boot = JObj [
     (''protocol_version'', j_nat HARNESS_CONTROL_VERSION),
     (''mac'', JStr (format_mac mac)),
     (''chip'', JStr ''ESP32-C5''),
     (''firmware_version'', JStr HARNESS_FW_VERSION),
     (''idf_version'', JStr (p_idf_version P)),
     (''boot_id'', j_nat (unat boot)),
     (''capabilities'', JObj [
        (''max_packet_size'', j_nat HARNESS_MAX_PACKET_SIZE),
        (''max_streams'', j_nat HARNESS_MAX_STREAMS),
        (''max_tx_window'', j_nat HARNESS_MAX_TX_WINDOW),
        (''bands'', JArr [JStr ''2.4ghz'', JStr ''5ghz'']),
        (''phy_rates'', JArr (map JStr rate_names)),
        (''encryption'', JBool True)])]"

definition send_info :: "'w platform \<Rightarrow> cdouble \<Rightarrow> 'w fw \<Rightarrow> 'w fw" where
  "send_info P cid s =
     (let (mac, s) = call (p_read_mac P) s;
          (boot, s) = boot_id P s
      in send_json P (JObj (response cid True @ [(''info'', info_json P mac boot)])) s)"

section \<open>Waiting for the generator and draining\<close>

definition drain_measurement_events :: "'w platform \<Rightarrow> 'w fw \<Rightarrow> bool \<times> 'w fw" where
  "drain_measurement_events P s =
     (let (ok, s) = receiver_flush P 2000 s in if \<not> ok then (False, s) else
      let (e, s) = radio_wait_idle P 2000 s in if e \<noteq> ESP_OK then (False, s) else
      let (ok, s) = receiver_flush P 2000 s in if \<not> ok then (False, s) else
      let (e, s) = radio_wait_idle P 2000 s in if e \<noteq> ESP_OK then (False, s) else
      receiver_flush P 2000 s)"

text \<open>
  \<open>Fence k\<close> is the loop of \<^verbatim>\<open>radio_wait_idle\<close> with \<open>k\<close> tokens taken. \<open>Again\<close> repeats with the phase
  it carries, \<open>Next\<close> goes on with the next one.
\<close>

datatype phase = Wait_Generator u32 | Post_Barrier | Await_Barrier | Fence nat

datatype verdict = Next | Again phase | Failed

fun phase_step :: "'w platform \<Rightarrow> phase \<Rightarrow> 'w fw \<Rightarrow> verdict \<times> 'w fw" where
  "phase_step P (Wait_Generator deadline) s =
     (if \<not> gen_handle s then (Next, s)
      else let (now, s) = call (p_tick_count P) s in
        if 0 \<le> sint (now - deadline) then (Failed, s)
        else (Again (Wait_Generator deadline), exec (p_delay P (p_ms_to_ticks P 1)) s))"
| "phase_step P Post_Barrier s =
     (if \<not> queue_ready s then (Failed, s)
      else let (task, s) = call (p_current_task P) s;
               (ok, s) = call (p_queue_send P ((zero_event EV_BARRIER)\<lparr>ev_waiter := task\<rparr>)
                                 (p_ms_to_ticks P 2000)) s
           in (if ok then Next else Failed, s))"
| "phase_step P Await_Barrier s =
     (let (ok, s) = call (p_notify_take P (p_ms_to_ticks P 2000)) s in (if ok then Next else Failed, s))"
| "phase_step P (Fence k) s =
     (if k < unat (current_tx_window s)
      then let (ok, s) = call (p_sem_take P (p_ms_to_ticks P 2000)) s
           in if ok then (Again (Fence (Suc k)), s) else (Failed, give_slots P k s)
      else (Next, give_slots P k s))"

definition drain_phases :: "phase list" where
  "drain_phases = [Post_Barrier, Await_Barrier, Fence 0, Post_Barrier, Await_Barrier, Fence 0,
     Post_Barrier, Await_Barrier]"

partial_function (option) run_phases :: "'w platform \<Rightarrow> phase list \<Rightarrow> 'w fw \<Rightarrow> (bool \<times> 'w fw) option" where
  "run_phases P phs s =
     (case phs of
        [] \<Rightarrow> Some (True, s)
      | ph # rest \<Rightarrow>
          (case phase_step P ph s of
             (Next, s') \<Rightarrow> run_phases P rest s'
           | (Again ph', s') \<Rightarrow> run_phases P (ph' # rest) s'
           | (Failed, s') \<Rightarrow> Some (False, s')))"

section \<open>Commands\<close>

datatype answer = Reply_State | Reply_Result

record job =
  j_cid :: cdouble
  j_phases :: "phase list"
  j_answer :: answer

text \<open>The waits of \<^verbatim>\<open>stop\<close> and \<^verbatim>\<open>result\<close>; the deadline is fixed when the wait begins.\<close>

definition begin_job :: "'w platform \<Rightarrow> cdouble \<Rightarrow> answer \<Rightarrow> 'w fw \<Rightarrow> job \<times> 'w fw" where
  "begin_job P cid ans s =
     (let (now, s) = call (p_tick_count P) s
      in (\<lparr>j_cid = cid, j_phases = Wait_Generator (now + p_ms_to_ticks P 2000) # drain_phases,
           j_answer = ans\<rparr>, s))"

text \<open>The end of a job: the reply, or the time-out.\<close>

definition answer_job :: "'w platform \<Rightarrow> job \<Rightarrow> 'w fw \<Rightarrow> 'w fw" where
  "answer_job P j s =
     (case j_answer j of
        Reply_State \<Rightarrow> send_state P (j_cid j) s
      | Reply_Result \<Rightarrow>
          let (doc, m) = metrics_json (g_config s) (g_metrics s)
          in send_json P (JObj (response (j_cid j) True @ [(''result'', doc)])) (s\<lparr>g_metrics := m\<rparr>))"

definition fail_job :: "'w platform \<Rightarrow> job \<Rightarrow> 'w fw \<Rightarrow> 'w fw" where
  "fail_job P j s =
     send_error P (j_cid j) ''drain_timeout'' ''timed out draining measurement events'' s"

definition do_configure ::
  "'w platform \<Rightarrow> 'j cjson \<Rightarrow> 'j \<Rightarrow> cdouble \<Rightarrow> 'w fw \<Rightarrow> 'w fw option" where
  "do_configure P J root cid s =
     (if g_state s = STATE_RUNNING \<or> g_state s = STATE_ARMED
      then Some (send_error P cid ''invalid_state''
             ''configure requires IDLE, CONFIGURED, FINISHED, or ERROR'' s)
      else case parse_config J root of
        Inl why \<Rightarrow> Some (send_error P cid ''invalid_config'' (take 111 why) s)
      | Inr cfg \<Rightarrow>
          (case radio_configure P cfg (s\<lparr>g_config := cfg\<rparr>) of
             None \<Rightarrow> None
           | Some (e, s) \<Rightarrow>
               if e \<noteq> ESP_OK
               then Some (send_error P cid ''radio_config'' (p_err_name P e) (s\<lparr>g_state := STATE_ERROR\<rparr>))
               else Some (send_state P cid (s\<lparr>g_metrics := metrics_reset, g_state := STATE_CONFIGURED\<rparr>))))"

definition do_arm :: "'w platform \<Rightarrow> cdouble \<Rightarrow> 'w fw \<Rightarrow> 'w fw" where
  "do_arm P cid s =
     (if g_state s \<noteq> STATE_CONFIGURED then send_error P cid ''invalid_state'' ''arm requires CONFIGURED'' s
      else send_state P cid (s\<lparr>g_metrics := metrics_reset, g_state := STATE_ARMED\<rparr>))"

definition do_start :: "'w platform \<Rightarrow> cdouble \<Rightarrow> 'w fw \<Rightarrow> 'w fw" where
  "do_start P cid s =
     (if g_state s \<noteq> STATE_ARMED then send_error P cid ''invalid_state'' ''start requires ARMED'' s
      else
        let (now, s) = call (p_timer P) s;
            s = (upd_metrics (\<lambda>m. m\<lparr>start_us := now\<rparr>) s)\<lparr>g_state := STATE_RUNNING\<rparr>;
            (e, s) = generator_start P s
        in if e \<noteq> ESP_OK
           then send_error P cid ''generator_start'' (p_err_name P e) (s\<lparr>g_state := STATE_ERROR\<rparr>)
           else send_state P cid s)"

definition do_stop :: "'w platform \<Rightarrow> cdouble \<Rightarrow> 'w fw \<Rightarrow> job \<times> 'w fw" where
  "do_stop P cid s =
     (let s = (if g_state s = STATE_RUNNING \<or> g_state s = STATE_ARMED
               then let (now, s) = call (p_timer P) (s\<lparr>g_state := STATE_FINISHED\<rparr>)
                    in upd_metrics (\<lambda>m. m\<lparr>end_us := now\<rparr>) s
               else s)
      in begin_job P cid Reply_State s)"

definition run_mismatch :: "cdouble \<Rightarrow> u32 \<Rightarrow> bool" where
  "run_mismatch requested current \<longleftrightarrow>
     \<not> d_eq requested (d_int 0) \<and> \<not> d_eq requested (d_int (uint current))"

definition dispatch ::
  "'w platform \<Rightarrow> 'j cjson \<Rightarrow> 'j \<Rightarrow> 'w fw \<Rightarrow> (job option \<times> 'w fw) option" where
  "dispatch P J root s =
     (let cid = number_item J root ''id'' (d_int 0);
          version = number_item J root ''version'' (d_int 0)
      in case string_item J root ''cmd'' of
           None \<Rightarrow> Some (None, send_error P cid ''bad_request'' ''cmd and a positive integer id are required'' s)
         | Some command \<Rightarrow>
             if \<not> integer_in_range cid 1 9007199254740991
             then Some (None, send_error P cid ''bad_request'' ''cmd and a positive integer id are required'' s)
             else if \<not> d_eq version (d_int (int HARNESS_CONTROL_VERSION))
             then Some (None, send_error P cid ''incompatible_version'' ''control protocol version mismatch'' s)
             else if command = ''info'' then Some (None, send_info P cid s)
             else if command = ''status'' then Some (None, send_state P cid s)
             else if command = ''configure''
             then (case do_configure P J root cid s of None \<Rightarrow> None | Some s \<Rightarrow> Some (None, s))
             else if run_mismatch (number_item J root ''run_id'' (d_int 0)) (run_id (g_config s))
             then Some (None, send_error P cid ''run_id_mismatch'' ''command does not match configured run'' s)
             else if command = ''arm'' then Some (None, do_arm P cid s)
             else if command = ''start'' then Some (None, do_start P cid s)
             else if command = ''stop''
             then (let (j, s) = do_stop P cid s in Some (Some j, s))
             else if command = ''result''
             then (if g_state s \<noteq> STATE_FINISHED
                   then Some (None, send_error P cid ''invalid_state'' ''result requires FINISHED'' s)
                   else let (j, s) = begin_job P cid Reply_Result s in Some (Some j, s))
             else Some (None, send_error P cid ''unknown_command'' ''unsupported command'' s))"

section \<open>The command loop\<close>

definition control_begin :: "'w fw \<Rightarrow> 'w fw" where
  "control_begin s = (if g_state s = STATE_BOOT then s\<lparr>g_state := STATE_IDLE\<rparr> else s)"

definition control_turn ::
  "'w platform \<Rightarrow> 'j cjson \<Rightarrow> 'w fw \<Rightarrow> (job option \<times> 'w fw) option" where
  "control_turn P J s =
     (let (line, s) = call (p_read_line P) s
      in case line of
           None \<Rightarrow> Some (None, exec (p_delay P (p_ms_to_ticks P 10)) (exec (p_clear_input P) s))
         | Some text \<Rightarrow>
             (case cj_parse J text of
                None \<Rightarrow> Some (None, send_error P (d_int 0) ''invalid_json''
                          ''expected one JSON object per line'' s)
              | Some root \<Rightarrow> dispatch P J root s))"

text \<open>One turn of a job that waits: its first phase, or the reply.\<close>

definition job_turn :: "'w platform \<Rightarrow> job \<Rightarrow> 'w fw \<Rightarrow> job option \<times> 'w fw" where
  "job_turn P j s =
     (case j_phases j of
        [] \<Rightarrow> (None, answer_job P j s)
      | ph # rest \<Rightarrow>
          (case phase_step P ph s of
             (Next, s) \<Rightarrow> (Some (j\<lparr>j_phases := rest\<rparr>), s)
           | (Again ph', s) \<Rightarrow> (Some (j\<lparr>j_phases := ph' # rest\<rparr>), s)
           | (Failed, s) \<Rightarrow> (None, fail_job P j s)))"

end
