(* ===== verification/Control_Phases.thy ===== *)
theory Control_Phases
  imports Control
begin

text \<open>
  The phases of a waiting command, run without interruption, are the blocking calls of the code.
\<close>

lemma run_phases_Nil [simp]: "run_phases P [] s = Some (True, s)"
  by (simp add: run_phases.simps)

lemma run_phases_Cons:
  "run_phases P (ph # rest) s =
     (case phase_step P ph s of
        (Next, s') \<Rightarrow> run_phases P rest s'
      | (Again ph', s') \<Rightarrow> run_phases P (ph' # rest) s'
      | (Failed, s') \<Rightarrow> Some (False, s'))"
  by (subst run_phases.simps) simp

lemma run_phases_flush:
  "run_phases P (Post_Barrier # Await_Barrier # rest) s =
     (if fst (receiver_flush P 2000 s) then run_phases P rest (snd (receiver_flush P 2000 s))
      else Some (False, snd (receiver_flush P 2000 s)))"
  by (simp add: run_phases_Cons receiver_flush_def Let_def case_prod_unfold)

lemma give_slots_add: "give_slots P (m + n) s = give_slots P m (give_slots P n s)"
  by (induction n arbitrary: s) simp_all

lemma run_phases_take:
  fixes P :: "'w platform"
  assumes "k \<le> unat (current_tx_window s)"
  defines "r \<equiv> take_slots P (p_ms_to_ticks P 2000) (unat (current_tx_window s) - k) s"
  shows "run_phases P (Fence k # rest) s =
    (if fst r < unat (current_tx_window s) - k then Some (False, give_slots P (k + fst r) (snd r))
     else run_phases P rest (give_slots P (unat (current_tx_window s)) (snd r)))"
  using assms(1) unfolding r_def
proof (induction "unat (current_tx_window s) - k" arbitrary: k s)
  case 0
  then have "unat (current_tx_window s) = k" by simp
  then show ?case by (simp add: run_phases_Cons)
next
  case (Suc n)
  let ?t = "p_ms_to_ticks P 2000"
  let ?s = "snd (call (p_sem_take P ?t) s)"
  have k: "k < unat (current_tx_window s)" using Suc.hyps(2) by linarith
  then have n: "unat (current_tx_window s) - k = Suc (unat (current_tx_window s) - Suc k)" by simp
  show ?case
  proof (cases "fst (p_sem_take P ?t (world s))")
    case False
    then show ?thesis using k n by (simp add: run_phases_Cons Let_def case_prod_unfold)
  next
    case True
    have IH: "run_phases P (Fence (Suc k) # rest) ?s =
      (let r = take_slots P ?t (unat (current_tx_window ?s) - Suc k) ?s
       in if fst r < unat (current_tx_window ?s) - Suc k
          then Some (False, give_slots P (Suc k + fst r) (snd r))
          else run_phases P rest (give_slots P (unat (current_tx_window ?s)) (snd r)))"
      unfolding Let_def by (rule Suc.hyps(1)) (use Suc.hyps(2) k in simp_all)
    have "run_phases P (Fence k # rest) s = run_phases P (Fence (Suc k) # rest) ?s"
      using True k by (subst run_phases_Cons) (simp add: Let_def case_prod_unfold)
    then show ?thesis using IH True n by (simp add: Let_def case_prod_unfold)
  qed
qed

lemma run_phases_fence:
  "run_phases P (Fence 0 # rest) s =
     (if fst (radio_wait_idle P 2000 s) = ESP_OK then run_phases P rest (snd (radio_wait_idle P 2000 s))
      else Some (False, snd (radio_wait_idle P 2000 s)))"
proof -
  have "fst (take_slots P (p_ms_to_ticks P 2000) (unat (current_tx_window s)) s) \<le> unat (current_tx_window s)"
    by (rule take_slots_bound)
  then show ?thesis
    using run_phases_take [of 0 s P rest]
    by (auto simp: radio_wait_idle_def Let_def case_prod_unfold)
qed

text \<open>The eight phases of the drain are \<^verbatim>\<open>drain_measurement_events\<close>.\<close>

lemma run_drain_phases: "run_phases P drain_phases s = Some (drain_measurement_events P s)"
proof -
  have pair: "fst r \<Longrightarrow> (True, snd r) = r" "\<not> fst r \<Longrightarrow> (False, snd r) = r" for r :: "bool \<times> 'a fw"
    by (simp_all add: prod_eq_iff)
  show ?thesis
    by (simp add: drain_phases_def run_phases_flush run_phases_fence pair
        drain_measurement_events_def Let_def case_prod_unfold)
qed

lemma wait_handle_phases:
  assumes "wait_handle P dl s = Some r"
  shows "run_phases P (Wait_Generator dl # rest) s =
    (if fst r then run_phases P rest (snd r) else Some (False, snd r))"
proof -
  have "(\<lambda>((P, dl), s) r. run_phases P (Wait_Generator dl # rest) s =
    (if fst r then run_phases P rest (snd r) else Some (False, snd r))) ((P, dl), s) r"
  proof (rule wait_handle.raw_induct [OF _ assms], goal_cases)
    case (1 wh P dl s r)
    let ?s1 = "snd (call (p_tick_count P) s)"
    note eq = 1(2) [unfolded Let_def case_prod_unfold, simplified]
    consider "\<not> gen_handle s" | "gen_handle s" "0 \<le> sint (fst (p_tick_count P (world s)) - dl)"
      | "gen_handle s" "\<not> 0 \<le> sint (fst (p_tick_count P (world s)) - dl)" by blast
    then show ?case
    proof cases
      case 3
      then have "wh P dl (exec (p_delay P (p_ms_to_ticks P 1)) ?s1) = Some r" using eq by simp
      then have "run_phases P (Wait_Generator dl # rest) (exec (p_delay P (p_ms_to_ticks P 1)) ?s1) =
          (if fst r then run_phases P rest (snd r) else Some (False, snd r))"
        using 1(1) by fastforce
      then show ?thesis
        using 3 by (subst (1) run_phases_Cons) (simp add: Let_def case_prod_unfold)
    qed (use eq in \<open>auto simp: run_phases_Cons Let_def case_prod_unfold\<close>)
  qed
  then show ?thesis by simp
qed

text \<open>
  A whole job, uninterrupted, is \<^verbatim>\<open>generator_wait_stopped(2000) && drain_measurement_events()\<close>.
\<close>

lemma job_phases_run:
  assumes "generator_wait_stopped P 2000 s = Some (stopped, s')"
  shows "run_phases P (j_phases (fst (begin_job P cid ans s))) (snd (begin_job P cid ans s)) =
    Some (if stopped then drain_measurement_events P s' else (False, s'))"
proof -
  have "wait_handle P (fst (p_tick_count P (world s)) + p_ms_to_ticks P 2000)
      (snd (call (p_tick_count P) s)) = Some (stopped, s')"
    using assms by (simp add: generator_wait_stopped_def Let_def case_prod_unfold)
  from wait_handle_phases [OF this, of drain_phases] show ?thesis
    by (simp add: begin_job_def Let_def case_prod_unfold run_drain_phases)
qed

end
