(* ===== verification/Control_Safety.thy ===== *)
theory Control_Safety
  imports Control_Phases
begin

text \<open>
  What a turn of the command loop keeps: the store and slot invariant, the ledger, the content of
  the event queue up to the barriers it posts, and the validity of the configuration in use.
\<close>

section \<open>Calls that only touch the world\<close>

text \<open>\<open>world_only v s s'\<close>: the globals are the same and so is the view \<open>v\<close> of the world.\<close>

definition world_only :: "('w \<Rightarrow> 'v) \<Rightarrow> 'w fw \<Rightarrow> 'w fw \<Rightarrow> bool" where
  "world_only v s s' \<longleftrightarrow> g_config s' = g_config s \<and> g_state s' = g_state s \<and>
     g_metrics s' = g_metrics s \<and> current_tx_window s' = current_tx_window s \<and>
     queue_ready s' = queue_ready s \<and> gen_handle s' = gen_handle s \<and> v (world s') = v (world s)"

lemma world_only_refl [simp]: "world_only v s s"
  by (simp add: world_only_def)

lemma world_only_trans: "world_only v s s' \<Longrightarrow> world_only v s' s'' \<Longrightarrow> world_only v s s''"
  by (simp add: world_only_def)

lemma world_onlyD:
  assumes "world_only v s s'"
  shows "g_config s' = g_config s" "g_state s' = g_state s" "g_metrics s' = g_metrics s"
    "current_tx_window s' = current_tx_window s" "queue_ready s' = queue_ready s"
    "gen_handle s' = gen_handle s" "v (world s') = v (world s)"
  using assms by (simp_all add: world_only_def)

lemma world_only_call: "keeps v f \<Longrightarrow> world_only v s (snd (call f s))"
  by (simp add: world_only_def keeps_def)

lemma world_only_exec: "keeps_world v h \<Longrightarrow> world_only v s (exec h s)"
  by (simp add: world_only_def keeps_world_def)

lemma fw_ok_world_only:
  "world_only (slots avail pending) s s' \<Longrightarrow> fw_ok avail pending s' = fw_ok avail pending s"
  by (simp add: world_only_def fw_ok_def slots_ok_def)

text \<open>The reply functions and the start of a job.\<close>

lemma replies_world_only:
  assumes "neutral_calls P v"
  shows "world_only v s (send_json P doc s)" "world_only v s (send_error P cid e m s)"
    "world_only v s (send_state P cid s)" "world_only v s (send_info P cid s)"
    "world_only v s (snd (begin_job P cid a s))"
proof -
  have k: "keeps_world v (p_send_json P d)" "keeps v (p_read_mac P)" "keeps v (p_random P)"
    "keeps v (p_tick_count P)" for d
    using assms by (simp_all add: neutral_calls_def)
  show j: "world_only v s (send_json P doc s)" for s doc
    unfolding send_json_def by (rule world_only_exec [OF k(1)])
  then show "world_only v s (send_error P cid e m s)" "world_only v s (send_state P cid s)"
    by (simp_all add: send_error_def send_state_def)
  have b: "world_only v s (snd (boot_id P s))" for s
    using k(3) by (simp add: boot_id_def Let_def case_prod_unfold world_only_def keeps_def)
  show "world_only v s (send_info P cid s)"
    unfolding send_info_def Let_def case_prod_unfold
    by (rule world_only_trans [OF world_only_trans [OF world_only_call [OF k(2)] b] j])
  show "world_only v s (snd (begin_job P cid a s))"
    using world_only_call [OF k(4)] by (simp add: begin_job_def Let_def case_prod_unfold)
qed

lemma slot_laws_neutral:
  "slot_laws P avail pending \<Longrightarrow> neutral_calls P (slots avail pending)"
  by (simp add: slot_laws_def)

lemma queue_laws_neutral: "queue_laws P queued \<Longrightarrow> neutral_calls P queued"
  by (simp add: queue_laws_def)

section \<open>The views of the configuration calls\<close>

text \<open>
  \<open>radio_only P v\<close>: no call of \<^verbatim>\<open>radio.c\<close> changes the view \<open>v\<close>. \<open>radio_keeps P v\<close>: nor does a call
  that has nothing to do with the radio.
\<close>

definition radio_only :: "'w platform \<Rightarrow> ('w \<Rightarrow> 'v) \<Rightarrow> bool" where
  "radio_only P v \<longleftrightarrow> (\<forall>t. keeps v (p_sem_take P t)) \<and> keeps_world v (p_sem_give P) \<and>
     (\<forall>a d. keeps v (p_now_send P a d)) \<and> (\<forall>r. keeps v (p_wifi P r)) \<and> keeps v (p_fetch_peer P) \<and>
     (\<forall>a. keeps_world v (p_del_peer P a))"

definition radio_keeps :: "'w platform \<Rightarrow> ('w \<Rightarrow> 'v) \<Rightarrow> bool" where
  "radio_keeps P v \<longleftrightarrow> radio_only P v \<and> neutral_calls P v"

lemma radio_keeps_only: "radio_keeps P v \<Longrightarrow> radio_only P v"
  by (simp add: radio_keeps_def)

lemma queue_laws_radio: "queue_laws P queued \<Longrightarrow> radio_keeps P queued"
  by (simp add: queue_laws_def radio_keeps_def radio_only_def)

lemma slot_calls_keep:
  assumes "radio_only P v"
  shows "v (world (snd (take_slots P t n s))) = v (world s)"
    "v (world (give_slots P n s')) = v (world s')"
    "v (world (snd (radio_wait_idle P tm s))) = v (world s)"
    "v (world (resize_window P c s)) = v (world s)"
proof -
  have k: "v (snd (p_sem_take P t w)) = v w" "v (p_sem_give P w) = v w" for t w
    using assms by (simp_all add: radio_only_def keeps_def keeps_world_def)
  show t: "v (world (snd (take_slots P t n s))) = v (world s)" for t n s
    by (induction n arbitrary: s) (simp_all add: Let_def case_prod_unfold k)
  show g: "v (world (give_slots P n s')) = v (world s')" for n s'
    by (induction n arbitrary: s') (simp_all add: k)
  show "v (world (snd (radio_wait_idle P tm s))) = v (world s)"
    by (simp add: radio_wait_idle_def Let_def case_prod_unfold g t)
  show "v (world (resize_window P c s)) = v (world s)"
    by (simp add: resize_window_def Let_def g)
qed

lemma delete_peers_keeps:
  assumes "delete_peers P w = Some w'" and "radio_only P v"
  shows "v w' = v w"
proof -
  have "(\<lambda>(P, w) w'. radio_only P v \<longrightarrow> v w' = v w) (P, w) w'"
  proof (rule delete_peers.raw_induct [OF _ assms(1)], goal_cases)
    case (1 dp P w w')
    then show ?case
      by (fastforce simp: radio_only_def keeps_def keeps_world_def split: option.splits)
  qed
  then show ?thesis using assms(2) by simp
qed

lemma radio_configure_keeps:
  assumes "radio_configure P c s = Some r" and k: "radio_only P v"
  shows "v (world (snd r)) = v (world s)"
proof -
  have w: "v (world (snd (wifi_calls P rs s))) = v (world s)" for rs s
    by (rule wifi_calls_keeps) (use k in \<open>simp add: radio_only_def\<close>)
  have c: "v (snd (p_wifi P r w)) = v w" for r w using k by (simp add: radio_only_def keeps_def)
  have d: "v (world (snd r)) = v (world s)" if "configure_driver P c s = Some r" for s
    using that w c delete_peers_keeps [OF _ k]
    by (auto simp: configure_driver_def Let_def case_prod_unfold split: option.splits if_splits)
  show ?thesis
    using assms(1) d slot_calls_keep [OF k]
    by (auto simp: radio_configure_def Let_def case_prod_unfold split: if_splits)
qed

section \<open>The effect of a command\<close>

definition config_in_use :: "'w fw \<Rightarrow> bool" where
  "config_in_use s \<longleftrightarrow>
     (g_state s \<in> {STATE_CONFIGURED, STATE_ARMED, STATE_RUNNING, STATE_FINISHED} \<or> gen_handle s \<longrightarrow>
        config_ok (g_config s))"

definition ctl_inv :: "('w \<Rightarrow> nat) \<Rightarrow> ('w \<Rightarrow> nat) \<Rightarrow> 'w fw \<Rightarrow> bool" where
  "ctl_inv avail pending s \<longleftrightarrow>
     fw_ok avail pending s \<and> tx_balance (g_metrics s) = 0 \<and> config_in_use s"

text \<open>The transitions a command can cause.\<close>

definition command_edge :: "harness_state \<Rightarrow> harness_state \<Rightarrow> bool" where
  "command_edge a b \<longleftrightarrow> a = b \<or>
     (b = STATE_CONFIGURED \<and> a \<notin> {STATE_ARMED, STATE_RUNNING}) \<or>
     (b = STATE_ARMED \<and> a = STATE_CONFIGURED) \<or>
     (b = STATE_RUNNING \<and> a = STATE_ARMED) \<or>
     (b = STATE_FINISHED \<and> a \<in> {STATE_ARMED, STATE_RUNNING}) \<or>
     (b = STATE_ERROR \<and> a \<noteq> STATE_RUNNING)"

definition command_effect ::
  "('w \<Rightarrow> nat) \<Rightarrow> ('w \<Rightarrow> nat) \<Rightarrow> ('w \<Rightarrow> event list) \<Rightarrow> 'w fw \<Rightarrow> 'w fw \<Rightarrow> bool" where
  "command_effect avail pending queued s s' \<longleftrightarrow>
     (ctl_inv avail pending s \<longrightarrow> ctl_inv avail pending s') \<and>
     queued (world s') = queued (world s) \<and> queue_ready s' = queue_ready s \<and>
     command_edge (g_state s) (g_state s') \<and> (gen_handle s \<longrightarrow> gen_handle s') \<and>
     (g_state s \<in> {STATE_ARMED, STATE_RUNNING} \<longrightarrow> g_config s' = g_config s)"

lemma command_effect_quiet:
  assumes "world_only (slots avail pending) s s'" and "world_only queued s s'"
  shows "command_effect avail pending queued s s'"
  using assms fw_ok_world_only [OF assms(1)] world_onlyD [OF assms(1)] world_onlyD(7) [OF assms(2)]
  by (simp add: command_effect_def ctl_inv_def config_in_use_def command_edge_def)

text \<open>A reply after a command adds nothing to its effect.\<close>

lemma command_effect_then:
  assumes "command_effect avail pending queued s s'"
    and "world_only (slots avail pending) s' s''" and "world_only queued s' s''"
  shows "command_effect avail pending queued s s''"
  using assms(1) fw_ok_world_only [OF assms(2)] world_onlyD [OF assms(2)] world_onlyD(7) [OF assms(3)]
  by (simp add: command_effect_def ctl_inv_def config_in_use_def)

lemma replies_effect:
  assumes S: "slot_laws P avail pending" and Q: "queue_laws P queued"
  shows "command_effect avail pending queued s (send_error P cid e m s)"
    "command_effect avail pending queued s (send_state P cid s)"
    "command_effect avail pending queued s (send_info P cid s)"
    "command_effect avail pending queued s (snd (begin_job P cid a s))"
  using replies_world_only [OF slot_laws_neutral [OF S]] replies_world_only [OF queue_laws_neutral [OF Q]]
  by (simp_all add: command_effect_quiet)

lemma replies_after:
  assumes S: "slot_laws P avail pending" and Q: "queue_laws P queued"
    and c: "command_effect avail pending queued s s'"
  shows "command_effect avail pending queued s (send_error P cid e m s')"
    "command_effect avail pending queued s (send_state P cid s')"
    "command_effect avail pending queued s (snd (begin_job P cid a s'))"
  using replies_world_only [OF slot_laws_neutral [OF S]] replies_world_only [OF queue_laws_neutral [OF Q]]
  by (simp_all add: command_effect_then [OF c])

lemma configure_effect:
  assumes S: "slot_laws P avail pending" and L: "peer_laws P peers" and Q: "queue_laws P queued"
    and c: "do_configure P J root cid s = Some s'"
  shows "command_effect avail pending queued s s'"
proof (cases "g_state s = STATE_RUNNING \<or> g_state s = STATE_ARMED")
  case True
  then show ?thesis using c replies_effect(1) [OF S Q] by (auto simp: do_configure_def)
next
  case False
  show ?thesis
  proof (cases "parse_config J root")
    case (Inl why)
    then show ?thesis using c False replies_effect(1) [OF S Q] by (auto simp: do_configure_def)
  next
    case (Inr cfg)
    let ?s = "s\<lparr>g_config := cfg\<rparr>"
    have ok: "config_ok cfg" by (rule parse_config_accepted [OF Inr])
    obtain e s1 where r: "radio_configure P cfg ?s = Some (e, s1)"
      using c False Inr by (auto simp: do_configure_def split: option.splits)
    have s': "s' = (if e \<noteq> ESP_OK
        then send_error P cid ''radio_config'' (p_err_name P e) (s1\<lparr>g_state := STATE_ERROR\<rparr>)
        else send_state P cid (s1\<lparr>g_metrics := metrics_reset, g_state := STATE_CONFIGURED\<rparr>))"
      using c False Inr r by (auto simp: do_configure_def split: if_splits)
    note f = radio_configure_frame [OF r, simplified]
      radio_configure_keeps [OF r radio_keeps_only [OF queue_laws_radio [OF Q]], simplified]
    have slots: "slots_ok avail pending s1" if "slots_ok avail pending s"
      using radio_configure_result [OF S L, of ?s cfg] that r config_okD(2) [OF ok]
      by (auto simp: slots_ok_def)
    have "command_effect avail pending queued s (s1\<lparr>g_state := STATE_ERROR\<rparr>)"
      "command_effect avail pending queued s (s1\<lparr>g_metrics := metrics_reset, g_state := STATE_CONFIGURED\<rparr>)"
      using slots f ok False
      by (auto simp: command_effect_def ctl_inv_def fw_ok_def slots_ok_def config_in_use_def
          command_edge_def tx_balance_reset store_ok_reset)
    then show ?thesis unfolding s' using replies_after [OF S Q] by simp
  qed
qed

lemma arm_effect:
  assumes S: "slot_laws P avail pending" and Q: "queue_laws P queued"
  shows "command_effect avail pending queued s (do_arm P cid s)"
proof (cases "g_state s = STATE_CONFIGURED")
  case True
  have "command_effect avail pending queued s (s\<lparr>g_metrics := metrics_reset, g_state := STATE_ARMED\<rparr>)"
    using True by (auto simp: command_effect_def ctl_inv_def fw_ok_def slots_ok_def config_in_use_def
        command_edge_def tx_balance_reset store_ok_reset)
  then show ?thesis using True replies_after(2) [OF S Q] by (simp add: do_arm_def)
qed (use replies_effect(1) [OF S Q] in \<open>simp add: do_arm_def\<close>)

lemma neutral_views:
  assumes "slot_laws P avail pending" and "queue_laws P queued"
  shows "slots avail pending (snd (p_timer P w)) = slots avail pending w"
    "queued (snd (p_timer P w)) = queued w"
    "slots avail pending (snd (p_task_create P n w)) = slots avail pending w"
    "queued (snd (p_task_create P n w)) = queued w"
  using assms by (simp_all add: slot_laws_def queue_laws_def neutral_calls_def keeps_def)

lemma start_effect:
  assumes S: "slot_laws P avail pending" and Q: "queue_laws P queued"
  shows "command_effect avail pending queued s (do_start P cid s)"
proof (cases "g_state s = STATE_ARMED")
  case True
  let ?now = "fst (p_timer P (world s))"
  let ?s = "(upd_metrics (\<lambda>m. m\<lparr>start_us := ?now\<rparr>) (snd (call (p_timer P) s)))\<lparr>g_state := STATE_RUNNING\<rparr>"
  note n = neutral_views [OF S Q]
  have "command_effect avail pending queued s ((snd (generator_start P ?s))\<lparr>g_state := STATE_ERROR\<rparr>)"
    "command_effect avail pending queued s (snd (generator_start P ?s))"
    using True n
    by (auto simp: generator_start_def Let_def case_prod_unfold command_effect_def ctl_inv_def
        fw_ok_def slots_ok_def config_in_use_def command_edge_def tx_balance_def)
  then show ?thesis
    using True replies_after [OF S Q] by (simp add: do_start_def Let_def case_prod_unfold)
qed (use replies_effect(1) [OF S Q] in \<open>simp add: do_start_def\<close>)

lemma stop_effect:
  assumes S: "slot_laws P avail pending" and Q: "queue_laws P queued"
  shows "command_effect avail pending queued s (snd (do_stop P cid s))"
proof -
  let ?s = "s\<lparr>g_state := STATE_FINISHED\<rparr>"
  let ?s2 = "upd_metrics (\<lambda>m. m\<lparr>end_us := fst (p_timer P (world s))\<rparr>) (snd (call (p_timer P) ?s))"
  note n = neutral_views [OF S Q]
  show ?thesis
  proof (cases "g_state s = STATE_RUNNING \<or> g_state s = STATE_ARMED")
    case True
    have "command_effect avail pending queued s ?s2"
      using True n by (auto simp: command_effect_def ctl_inv_def fw_ok_def slots_ok_def
          config_in_use_def command_edge_def tx_balance_def)
    then show ?thesis
      using True replies_after(3) [OF S Q] by (simp add: do_stop_def Let_def case_prod_unfold)
  next
    case False
    then show ?thesis using replies_effect(4) [OF S Q] by (simp add: do_stop_def)
  qed
qed

text \<open>A job starts with all its phases to go.\<close>

definition new_job :: "job option \<Rightarrow> bool" where
  "new_job j \<longleftrightarrow> (\<forall>x. j = Some x \<longrightarrow> (\<exists>deadline. j_phases x = Wait_Generator deadline # drain_phases))"

lemma new_job_begin [simp]: "new_job None" "new_job (Some (fst (begin_job P cid a s)))"
  "new_job (Some (fst (do_stop P cid s)))"
  by (simp_all add: new_job_def begin_job_def do_stop_def Let_def case_prod_unfold)

lemma dispatch_effect:
  assumes S: "slot_laws P avail pending" and L: "peer_laws P peers" and Q: "queue_laws P queued"
    and d: "dispatch P J root s = Some r"
  shows "command_effect avail pending queued s (snd r) \<and> new_job (fst r)"
proof -
  note e = replies_effect [OF S Q] arm_effect [OF S Q] start_effect [OF S Q] stop_effect [OF S Q]
    configure_effect [OF S L Q]
  show ?thesis
    using d unfolding dispatch_def Let_def case_prod_unfold
    by (auto split: option.splits if_splits simp: e)
qed

lemma read_line_world_only:
  assumes "neutral_calls P v"
  shows "world_only v s (snd (call (p_read_line P) s))"
    "world_only v s (exec (p_delay P t) (exec (p_clear_input P) (snd (call (p_read_line P) s))))"
  using assms by (simp_all add: neutral_calls_def world_only_def keeps_def keeps_world_def)

text \<open>Only the world differs before the command; its effect is that of the whole turn.\<close>

lemma command_effect_after:
  assumes "world_only (slots avail pending) s s1" and "world_only queued s s1"
    and "command_effect avail pending queued s1 s'"
  shows "command_effect avail pending queued s s'"
  using assms(3) fw_ok_world_only [OF assms(1)] world_onlyD [OF assms(1)] world_onlyD(7) [OF assms(2)]
  by (simp add: command_effect_def ctl_inv_def config_in_use_def)

lemma control_turn_effect:
  assumes S: "slot_laws P avail pending" and L: "peer_laws P peers" and Q: "queue_laws P queued"
    and d: "control_turn P J s = Some r"
  shows "command_effect avail pending queued s (snd r) \<and> new_job (fst r)"
proof -
  let ?s = "snd (call (p_read_line P) s)"
  note n = read_line_world_only [OF slot_laws_neutral [OF S], of s]
    read_line_world_only [OF queue_laws_neutral [OF Q], of s]
  note after = command_effect_after [OF n(1) n(3)]
  show ?thesis
  proof (cases "fst (p_read_line P (world s))")
    case None
    then have "r = (None, exec (p_delay P (p_ms_to_ticks P 10)) (exec (p_clear_input P) ?s))"
      using d by (simp add: control_turn_def Let_def case_prod_unfold)
    then show ?thesis using command_effect_quiet [OF n(2) n(4)] by simp
  next
    case line: (Some input)
    show ?thesis
    proof (cases "cj_parse J input")
      case None
      then have "r = (None, send_error P (d_int 0) ''invalid_json''
          ''expected one JSON object per line'' ?s)"
        using d line by (simp add: control_turn_def Let_def case_prod_unfold)
      then show ?thesis using after [OF replies_effect(1) [OF S Q]] by simp
    next
      case (Some root)
      then have "dispatch P J root ?s = Some r"
        using d line by (simp add: control_turn_def Let_def case_prod_unfold)
      from dispatch_effect [OF S L Q this] after [of "snd r"] show ?thesis by simp
    qed
  qed
qed

section \<open>The report keeps the store\<close>

lemma sort_reservoir_wf: "dist_wf d \<Longrightarrow> dist_wf (sort_reservoir d)"
  by (simp add: dist_wf_def sort_reservoir_def Let_def)

lemma metrics_json_store:
  "store_ok m \<Longrightarrow> store_ok (snd (metrics_json c m))"
  "tx_balance (snd (metrics_json c m)) = tx_balance m"
  by (auto simp: metrics_json_def distribution_json_def Let_def case_prod_unfold store_ok_def
      metrics_wf_def totals_consistent_def stream_total_def tx_balance_def intro: sort_reservoir_wf)

lemma answer_job_effect:
  assumes S: "slot_laws P avail pending" and Q: "queue_laws P queued"
  shows "command_effect avail pending queued s (answer_job P j s)"
proof (cases "j_answer j")
  case Reply_State
  then show ?thesis using replies_effect(2) [OF S Q] by (simp add: answer_job_def)
next
  case Reply_Result
  let ?s = "s\<lparr>g_metrics := snd (metrics_json (g_config s) (g_metrics s))\<rparr>"
  have e: "command_effect avail pending queued s ?s"
    using metrics_json_store [where m = "g_metrics s" and c = "g_config s"]
    by (auto simp: command_effect_def ctl_inv_def fw_ok_def slots_ok_def config_in_use_def command_edge_def)
  have "world_only (slots avail pending) ?s (answer_job P j s)" "world_only queued ?s (answer_job P j s)"
    using Reply_Result replies_world_only(1) [OF slot_laws_neutral [OF S]]
      replies_world_only(1) [OF queue_laws_neutral [OF Q]]
    by (simp_all add: answer_job_def Let_def case_prod_unfold)
  then show ?thesis by (rule command_effect_then [OF e])
qed

end
