(* ===== verification/System.thy ===== *)
theory System
  imports Control_Safety
begin

text \<open>
  The whole firmware: \<^verbatim>\<open>app_main\<close>, and the interleaving of its tasks and callbacks. A step is one
  driver callback, one turn of the receiver's loop, one turn of the generator's loop, one command,
  or one phase of a waiting command.
\<close>

section \<open>Start-up\<close>

text \<open>The globals before \<^verbatim>\<open>app_main\<close>: everything zero but the window.\<close>

definition zero_distribution :: sample_distribution where
  "zero_distribution = distribution_reset\<lparr>d_min := 0\<rparr>"

definition boot_metrics :: metrics where
  "boot_metrics = metrics_reset\<lparr>rssi_min := 0, rssi_max := 0, rtt := zero_distribution,
     dispatch_lateness := zero_distribution\<rparr>"

definition boot_fw :: "'w \<Rightarrow> 'w fw" where
  "boot_fw w = \<lparr>g_config = zero_config, g_state = STATE_BOOT, g_metrics = boot_metrics,
     current_tx_window = 1, queue_ready = False, gen_handle = False, boot_static = 0, world = w\<rparr>"

definition app_main :: "'w platform \<Rightarrow> 'w fw \<Rightarrow> 'w fw" where
  "app_main P s =
     (let s = receiver_start P s;
          (e, s) = radio_init P s;
          s = (if e \<noteq> ESP_OK then s\<lparr>g_state := STATE_ERROR\<rparr> else s)
      in snd (call (p_task_create P ''control'') s))"

section \<open>Steps\<close>

datatype gen_task = Gen_None | Gen_Created | Gen_Running gen_local

record 'w sys =
  sy_fw :: "'w fw"
  sy_job :: "job option"
  sy_gen :: gen_task

text \<open>A command that sets the task handle creates the task.\<close>

definition spawned :: "'w fw \<Rightarrow> 'w fw \<Rightarrow> gen_task \<Rightarrow> gen_task" where
  "spawned s s' g = (if gen_handle s' \<and> \<not> gen_handle s then Gen_Created else g)"

definition control_step :: "'w platform \<Rightarrow> 'j cjson \<Rightarrow> 'w sys \<Rightarrow> 'w sys option" where
  "control_step P J y =
     (case sy_job y of
        Some j \<Rightarrow> (let (j', s) = job_turn P j (sy_fw y) in Some (y\<lparr>sy_fw := s, sy_job := j'\<rparr>))
      | None \<Rightarrow>
          (case control_turn P J (sy_fw y) of
             None \<Rightarrow> None
           | Some (j', s) \<Rightarrow>
               Some (y\<lparr>sy_fw := s, sy_job := j', sy_gen := spawned (sy_fw y) s (sy_gen y)\<rparr>)))"

definition generator_step :: "'w platform \<Rightarrow> 'w sys \<Rightarrow> 'w sys option" where
  "generator_step P y =
     (case sy_gen y of
        Gen_None \<Rightarrow> None
      | Gen_Created \<Rightarrow> (let (l, s) = gen_begin P (sy_fw y) in Some (y\<lparr>sy_fw := s, sy_gen := Gen_Running l\<rparr>))
      | Gen_Running l \<Rightarrow>
          (let (go, s) = gen_cond P l (sy_fw y) in
           if go then (case gen_turn P l s of
                         None \<Rightarrow> None
                       | Some (l', s') \<Rightarrow> Some (y\<lparr>sy_fw := s', sy_gen := Gen_Running l'\<rparr>))
           else Some (y\<lparr>sy_fw := gen_finish P s, sy_gen := Gen_None\<rparr>)))"

text \<open>
  \<open>avail\<close>, \<open>pending\<close> and \<open>queued\<close> view the world as in the laws of the platform. The driver's send
  callback runs when a frame is pending; the receive callback may run at any time, with any frame.
  Time passing changes the world outside these views.
\<close>

inductive sys_step ::
  "'w platform \<Rightarrow> 'j cjson \<Rightarrow> ('w \<Rightarrow> nat) \<Rightarrow> ('w \<Rightarrow> nat) \<Rightarrow> ('w \<Rightarrow> event list) \<Rightarrow> 'w sys \<Rightarrow> 'w sys \<Rightarrow> bool"
  for P J avail pending queued where
  step_rx: "sys_step P J avail pending queued y (y\<lparr>sy_fw := rx_callback P info data len (sy_fw y)\<rparr>)"
| step_tx: "pending (world (sy_fw y)) = pending w + 1 \<Longrightarrow> avail w = avail (world (sy_fw y)) \<Longrightarrow>
    queued w = queued (world (sy_fw y)) \<Longrightarrow>
    sys_step P J avail pending queued y (y\<lparr>sy_fw := tx_callback P ok ((sy_fw y)\<lparr>world := w\<rparr>)\<rparr>)"
| step_receiver: "sys_step P J avail pending queued y (y\<lparr>sy_fw := receiver_step P (sy_fw y)\<rparr>)"
| step_generator: "generator_step P y = Some y' \<Longrightarrow> sys_step P J avail pending queued y y'"
| step_control: "control_step P J y = Some y' \<Longrightarrow> sys_step P J avail pending queued y y'"
| step_time: "avail w = avail (world (sy_fw y)) \<Longrightarrow> pending w = pending (world (sy_fw y)) \<Longrightarrow>
    queued w = queued (world (sy_fw y)) \<Longrightarrow>
    sys_step P J avail pending queued y (y\<lparr>sy_fw := (sy_fw y)\<lparr>world := w\<rparr>\<rparr>)"

text \<open>
  The system starts after a successful \<^verbatim>\<open>radio_init\<close>, with the command task at its loop, from a world
  without a semaphore and without frames in flight.
\<close>

definition initial_sys :: "'w platform \<Rightarrow> 'w \<Rightarrow> 'w sys" where
  "initial_sys P w = \<lparr>sy_fw = control_begin (app_main P (boot_fw w)), sy_job = None, sy_gen = Gen_None\<rparr>"

definition radio_up :: "'w platform \<Rightarrow> 'w \<Rightarrow> bool" where
  "radio_up P w \<longleftrightarrow> fst (radio_init P (receiver_start P (boot_fw w))) = ESP_OK"

inductive reachable ::
  "'w platform \<Rightarrow> 'j cjson \<Rightarrow> ('w \<Rightarrow> nat) \<Rightarrow> ('w \<Rightarrow> nat) \<Rightarrow> ('w \<Rightarrow> event list) \<Rightarrow> 'w sys \<Rightarrow> bool"
  for P J avail pending queued where
  reach_start: "radio_up P w \<Longrightarrow> avail w = 0 \<Longrightarrow> pending w = 0 \<Longrightarrow>
    reachable P J avail pending queued (initial_sys P w)"
| reach_step: "reachable P J avail pending queued y \<Longrightarrow> sys_step P J avail pending queued y y' \<Longrightarrow>
    reachable P J avail pending queued y'"

inductive_cases sys_stepE: "sys_step P J avail pending queued y y'"

section \<open>The generator's turn without its frames\<close>

lemma send_one_keeps:
  assumes "radio_keeps P v"
  shows "v (world (snd (send_one P ty st q len dl sch s))) = v (world s)"
proof -
  have k: "v (snd (p_sem_take P t w)) = v w" "v (p_sem_give P w) = v w"
    "v (snd (p_now_send P a d w)) = v w" "v (p_yield P w) = v w" "v (snd (p_timer P w)) = v w" for t a d w
    using assms by (simp_all add: radio_keeps_def radio_only_def neutral_calls_def keeps_def keeps_world_def)
  show ?thesis
    by (simp add: send_one_def radio_acquire_tx_def radio_release_tx_def radio_send_acquired_def
        Let_def case_prod_unfold k split: bool.split option.split)
qed

lemma gen_turn_cases:
  assumes "gen_turn P l s = Some r"
  obtains s' ty i len dl sch where "s' = s \<or> wait_deadline P dl s = Some s'"
    "snd r = snd (send_next P ty i len dl sch l s')"
    "gen_config_ok (g_config s) \<Longrightarrow> i < HARNESS_MAX_STREAMS \<and> packet_len_ok len"
proof (cases "mode (g_config s) = MODE_LATENCY_LOAD")
  case lat: True
  let ?c = "g_config s"
  let ?d = "if gl_next_probe_us l \<le> gl_next_background_us l then gl_next_probe_us l
            else gl_next_background_us l"
  let ?i = "unat (gl_background_index l mod ucast (background_streams ?c))"
  obtain s' where w: "wait_deadline P ?d s = Some s'"
    using assms lat by (auto simp: gen_turn_def gen_latency_turn_def Let_def split: option.splits)
  show thesis
  proof (cases "gl_next_probe_us l \<le> gl_next_background_us l")
    case True
    then have "snd r = snd (send_next P PACKET_PING (HARNESS_MAX_STREAMS - 1) (packet_size ?c) ?d True l s')"
      using assms lat w
      by (auto simp: gen_turn_def gen_latency_turn_def Let_def case_prod_unfold split: if_splits)
    then show thesis
      using that [OF disjI2 [OF w]] by (auto simp: gen_config_ok_def HARNESS_MAX_STREAMS_def)
  next
    case False
    then have "snd r = snd (send_next P PACKET_STREAM ?i (background_packet_size ?c) ?d True l s')"
      using assms lat w
      by (auto simp: gen_turn_def gen_latency_turn_def Let_def case_prod_unfold split: if_splits)
    moreover have "?i < HARNESS_MAX_STREAMS" if "streams ?c \<noteq> 0"
      using mod_stream_bound background_streams_bound [OF that] by (blast intro: order_less_trans)
    ultimately show thesis
      using that [OF disjI2 [OF w]] lat by (auto simp: gen_config_ok_def)
  qed
next
  case mode: False
  let ?c = "g_config s"
  let ?rate = "stream_rate ?c"
  let ?d = "if ?rate \<noteq> 0 then gl_start_us l + gl_index l * 1000000 div ?rate else 0"
  let ?i = "unat (gl_index l mod ucast (streams ?c))"
  let ?ty = "if mode ?c = MODE_PING then PACKET_PING else PACKET_STREAM"
  have eq: "gen_stream_turn P l s = Some r" using assms mode by (simp add: gen_turn_def)
  obtain s' where w: "(if ?rate \<noteq> 0 then wait_deadline P ?d s else Some s) = Some s'"
    using eq unfolding gen_stream_turn_def Let_def by (cases "if ?rate \<noteq> 0 then wait_deadline P ?d s else Some s") auto
  have "streams ?c \<noteq> 0"
    using eq w unfolding gen_stream_turn_def Let_def by (auto split: if_splits)
  then have "snd r = snd (send_next P ?ty ?i (packet_size ?c) ?d (?rate \<noteq> 0) l s')"
    using eq w unfolding gen_stream_turn_def Let_def case_prod_unfold by (auto simp del: if_split)
  moreover have "?i < HARNESS_MAX_STREAMS \<and> packet_len_ok (packet_size ?c)" if "gen_config_ok ?c"
    using that mod_stream_bound [OF \<open>streams ?c \<noteq> 0\<close>, of "gl_index l"]
    by (auto simp: gen_config_ok_def)
  moreover have "s' = s \<or> wait_deadline P ?d s = Some s'" using w by (auto split: if_splits)
  ultimately show thesis using that by blast
qed

end
