(* ===== verification/System_Inv.thy ===== *)
theory System_Inv
  imports System
begin

text \<open>
  The invariant of the whole system and its preservation by every step: the store is consistent,
  every token of the transmission window is in the semaphore, owed by a pending callback or held by
  the waiting command, no attempt to transmit is left open, the queue holds well-formed events, and
  the configuration in use is one the parser accepts.
\<close>

section \<open>Tokens held by a waiting command\<close>

text \<open>\<open>fw_held k\<close> is \<open>fw_ok\<close> with \<open>k\<close> tokens of the window taken by the fence of a waiting command.\<close>

definition fw_held :: "('w \<Rightarrow> nat) \<Rightarrow> ('w \<Rightarrow> nat) \<Rightarrow> nat \<Rightarrow> 'w fw \<Rightarrow> bool" where
  "fw_held avail pending k s \<longleftrightarrow> store_ok (g_metrics s) \<and>
     slots avail pending (world s) + k = unat (current_tx_window s) \<and>
     unat (current_tx_window s) \<le> HARNESS_MAX_TX_WINDOW"

lemma fw_held_0 [simp]: "fw_held avail pending 0 s = fw_ok avail pending s"
  by (auto simp: fw_held_def fw_ok_def slots_ok_def)

lemma fw_held_world_only:
  "world_only (slots avail pending) s s' \<Longrightarrow> fw_held avail pending k s' = fw_held avail pending k s"
  by (simp add: fw_held_def world_only_def)

text \<open>
  The tasks and callbacks other than the control task never look at the window, so what they do
  with \<open>k\<close> tokens held is what they do when the window is smaller by \<open>k\<close>.
\<close>

definition blind :: "('w fw \<Rightarrow> 'w fw) \<Rightarrow> bool" where
  "blind h \<longleftrightarrow> (\<forall>s n. h (s\<lparr>current_tx_window := n\<rparr>) = (h s)\<lparr>current_tx_window := n\<rparr>) \<and>
     (\<forall>s. current_tx_window (h s) = current_tx_window s)"

lemma fw_held_window:
  assumes k: "fw_held avail pending k s"
  obtains n where "unat n + k = unat (current_tx_window s)"
    "fw_ok avail pending (s\<lparr>current_tx_window := n\<rparr>)"
proof
  define n where "n = (of_nat (unat (current_tx_window s) - k) :: u16)"
  have "unat n = unat (current_tx_window s) - k"
    using unsigned_less [of "current_tx_window s", where 'a = nat]
    by (simp add: n_def unsigned_of_nat take_bit_nat_eq_self del: of_nat_diff)
  then show "unat n + k = unat (current_tx_window s)" "fw_ok avail pending (s\<lparr>current_tx_window := n\<rparr>)"
    using k unfolding fw_held_def fw_ok_def slots_ok_def by auto
qed

lemma fw_held_blind:
  assumes b: "blind h" and k: "fw_held avail pending k s"
    and ok: "\<And>n. fw_ok avail pending (s\<lparr>current_tx_window := n\<rparr>) \<Longrightarrow>
      fw_ok avail pending (h (s\<lparr>current_tx_window := n\<rparr>))"
  shows "fw_held avail pending k (h s)"
proof -
  obtain n where n: "unat n + k = unat (current_tx_window s)"
    "fw_ok avail pending (s\<lparr>current_tx_window := n\<rparr>)" using k by (rule fw_held_window)
  then have "fw_ok avail pending ((h s)\<lparr>current_tx_window := n\<rparr>)"
    using ok [OF n(2)] b by (simp add: blind_def)
  then show ?thesis
    using b k n(1) by (auto simp: blind_def fw_held_def fw_ok_def slots_ok_def)
qed

lemma window_commute [simp]:
  "call f (s\<lparr>current_tx_window := n\<rparr>) = (fst (call f s), (snd (call f s))\<lparr>current_tx_window := n\<rparr>)"
  "exec h (s\<lparr>current_tx_window := n\<rparr>) = (exec h s)\<lparr>current_tx_window := n\<rparr>"
  "upd_metrics u (s\<lparr>current_tx_window := n\<rparr>) = (upd_metrics u s)\<lparr>current_tx_window := n\<rparr>"
  by (simp_all add: call_def exec_def upd_metrics_def)

section \<open>The callbacks and the receiver\<close>

lemma blindI:
  "(\<And>s n. h (s\<lparr>current_tx_window := n\<rparr>) = (h s)\<lparr>current_tx_window := n\<rparr>) \<Longrightarrow>
   (\<And>s. current_tx_window (h s) = current_tx_window s) \<Longrightarrow> blind h"
  by (simp add: blind_def)

lemma blindD:
  assumes "blind h"
  shows "h (s\<lparr>current_tx_window := n\<rparr>) = (h s)\<lparr>current_tx_window := n\<rparr>"
    "current_tx_window (h s) = current_tx_window s"
  using assms by (simp_all add: blind_def)

lemma blind_posts:
  "blind (receiver_post_rx P d r t)" "blind (receiver_post_tx P b)" "blind (receiver_post_drop P x y)"
  by (rule blindI;
      simp add: receiver_post_rx_def receiver_post_tx_def receiver_post_drop_def Let_def case_prod_unfold)+

lemma blind_tx_callback: "blind (tx_callback P ok)"
  by (rule blindI) (simp_all add: tx_callback_def blindD [OF blind_posts(2)])

lemma blind_rx_callback: "blind (rx_callback P info data len)"
  by (rule blindI)
    (auto simp: rx_callback_def blindD [OF blind_posts(1)] blindD [OF blind_posts(3)] Let_def
      case_prod_unfold split: option.split)

lemma blind_echo: "blind (echo_ping P h ev)"
  by (rule blindI)
    (simp_all add: echo_ping_def radio_acquire_tx_def radio_send_acquired_def Let_def case_prod_unfold)

lemma blind_receiver_frame: "blind (receiver_frame P ev)"
  by (rule blindI)
    (simp_all add: receiver_frame_def blindD [OF blind_echo] Let_def split: prod.split option.split bool.split)

lemma blind_receiver: "blind (receiver_step P)"
  by (rule blindI)
    (simp_all add: receiver_step_def receiver_event_def blindD [OF blind_receiver_frame] case_prod_unfold
      Let_def split: option.split event_type.split)

text \<open>What the callbacks do to the store, the slots, the ledger and the queue.\<close>

lemma post_ok:
  assumes L: "slot_laws P avail pending" and ok: "fw_ok avail pending s"
  shows "fw_ok avail pending (receiver_post_rx P d r t s)"
    "fw_ok avail pending (receiver_post_tx P b s)" "fw_ok avail pending (receiver_post_drop P x y s)"
proof -
  have c: "fw_ok avail pending (snd (call (p_queue_send P e tm) s))" for e tm
    using ok by (rule fw_ok_call) (simp add: slot_neutral [OF L])
  show "fw_ok avail pending (receiver_post_rx P d r t s)" "fw_ok avail pending (receiver_post_tx P b s)"
    "fw_ok avail pending (receiver_post_drop P x y s)"
    using c fw_ok_ops(5) [OF c] ok
    by (simp_all add: receiver_post_rx_def receiver_post_tx_def receiver_post_drop_def Let_def
        case_prod_unfold)
qed

lemma post_views:
  assumes Q: "queue_laws P queued"
  shows "set (queued (world (receiver_post_rx P d r t s))) \<subseteq> insert (rx_event d r t) (set (queued (world s)))"
    "set (queued (world (receiver_post_tx P b s))) \<subseteq>
       insert (zero_event (if b then EV_TX_OK else EV_TX_FAIL)) (set (queued (world s)))"
    "set (queued (world (receiver_post_drop P x y s))) \<subseteq> insert (zero_event EV_DROP) (set (queued (world s)))"
proof -
  have q: "set (queued (snd (p_queue_send P e 0 w))) \<subseteq> insert e (set (queued w))" for e w
    using Q by (auto simp: queue_laws_def)
  show "set (queued (world (receiver_post_rx P d r t s))) \<subseteq> insert (rx_event d r t) (set (queued (world s)))"
    "set (queued (world (receiver_post_tx P b s))) \<subseteq>
       insert (zero_event (if b then EV_TX_OK else EV_TX_FAIL)) (set (queued (world s)))"
    "set (queued (world (receiver_post_drop P x y s))) \<subseteq> insert (zero_event EV_DROP) (set (queued (world s)))"
    using q
    by (simp_all add: subset_insertI receiver_post_rx_def receiver_post_tx_def receiver_post_drop_def Let_def
        case_prod_unfold)
qed

text \<open>The globals that no callback and no turn of the receiver changes, and the ledger.\<close>

definition same_control :: "'w fw \<Rightarrow> 'w fw \<Rightarrow> bool" where
  "same_control s s' \<longleftrightarrow> g_config s' = g_config s \<and> g_state s' = g_state s \<and>
     current_tx_window s' = current_tx_window s \<and>
     queue_ready s' = queue_ready s \<and> gen_handle s' = gen_handle s \<and>
     tx_balance (g_metrics s') = tx_balance (g_metrics s)"

lemma same_control_posts:
  "same_control s (receiver_post_rx P d r t s)" "same_control s (receiver_post_tx P b s)"
  "same_control s (receiver_post_drop P x y s)"
  by (simp_all add: same_control_def receiver_post_rx_def receiver_post_tx_def receiver_post_drop_def
      frame_simps Let_def case_prod_unfold)

lemma same_control_callbacks:
  "same_control s (tx_callback P b s)" "same_control s (rx_callback P info data len s)"
proof -
  show "same_control s (tx_callback P b s)"
    using same_control_posts(2) [of s P b] by (simp add: same_control_def tx_callback_def)
  have "same_control s (snd (call (p_timer P) s))" by (simp add: same_control_def)
  then show "same_control s (rx_callback P info data len s)"
    using rx_callback_cases [of info data len P s] same_control_posts(3) [of s P False True]
      same_control_posts(1) [of "snd (call (p_timer P) s)" P]
    by (auto simp: same_control_def)
qed

text \<open>The callbacks queue well-formed events and keep the slots, whatever is held.\<close>

lemma rx_callback_inv:
  assumes L: "slot_laws P avail pending" and Q: "queue_laws P queued"
    and k: "fw_held avail pending k s" and ev: "\<forall>ev \<in> set (queued (world s)). event_wf ev"
  shows "fw_held avail pending k (rx_callback P info data len s)"
    "\<forall>ev \<in> set (queued (world (rx_callback P info data len s))). event_wf ev"
proof -
  have "fw_ok avail pending (rx_callback P info data len s)" if "fw_ok avail pending s" for s
  proof -
    have "fw_ok avail pending (snd (call (p_timer P) s))"
      using that by (rule fw_ok_call) (simp add: slot_neutral [OF L])
    then show ?thesis
      using rx_callback_cases [of info data len P s] post_ok [OF L] that by auto
  qed
  then show "fw_held avail pending k (rx_callback P info data len s)"
    using fw_held_blind [OF blind_rx_callback k] by blast
  have t: "queued (world (snd (call (p_timer P) s))) = queued (world s)"
    using Q by (simp add: queue_laws_def neutral_calls_def keeps_def)
  have "event_wf (rx_event (take (nat len) d) r tm)" if "len \<le> int HARNESS_MAX_PACKET_SIZE" for d r tm
    using that by (intro event_wf_posted) auto
  then show "\<forall>ev \<in> set (queued (world (rx_callback P info data len s))). event_wf ev"
    using rx_callback_cases [of info data len P s] ev t event_wf_zero(1)
      post_views(1) [OF Q, of _ _ _ "snd (call (p_timer P) s)"] post_views(3) [OF Q, of False True s]
    by (smt (verit, best) insert_iff subset_iff)
qed

lemma tx_callback_inv:
  assumes L: "slot_laws P avail pending" and Q: "queue_laws P queued"
    and k: "fw_held avail pending k s" and ev: "\<forall>ev \<in> set (queued (world s)). event_wf ev"
    and w: "pending (world s) = pending w + 1" "avail w = avail (world s)" "queued w = queued (world s)"
  shows "fw_held avail pending k (tx_callback P b (s\<lparr>world := w\<rparr>))"
    "\<forall>ev \<in> set (queued (world (tx_callback P b (s\<lparr>world := w\<rparr>)))). event_wf ev"
proof -
  let ?s = "s\<lparr>world := w\<rparr>"
  have n: "slots avail pending w + 1 = slots avail pending (world s)"
    using w by (simp add: slots_def)
  then have "slots avail pending (world (tx_callback P b ?s)) = slots avail pending (world s)"
    using tx_callback_slots [OF L, of ?s b] k by (simp add: fw_held_def)
  moreover have "store_ok (g_metrics (tx_callback P b ?s))"
    using k post_metrics(2) [of P b ?s] by (auto simp: tx_callback_def fw_held_def)
  ultimately show "fw_held avail pending k (tx_callback P b ?s)"
    using k blindD(2) [OF blind_tx_callback, of P b ?s] by (simp add: fw_held_def)
  have "queued (world (tx_callback P b ?s)) = queued (world (receiver_post_tx P b ?s))"
    using Q by (simp add: tx_callback_def queue_laws_def keeps_world_def)
  then show "\<forall>ev \<in> set (queued (world (tx_callback P b ?s))). event_wf ev"
    using post_views(2) [OF Q, of b ?s] ev w by auto
qed

lemma receiver_frame_keeps:
  assumes k: "radio_keeps P v"
  shows "v (world (receiver_event P ev s)) = v (world s)"
proof -
  have w: "v (snd (p_sem_take P t w)) = v w" "v (p_sem_give P w) = v w"
    "v (snd (p_now_send P a d w)) = v w" "v (p_notify_give P n w) = v w" "v (snd (p_timer P w)) = v w"
    for t a d n w
    using k by (simp_all add: radio_keeps_def radio_only_def neutral_calls_def keeps_def keeps_world_def)
  show ?thesis
    by (simp add: receiver_event_def receiver_frame_def echo_ping_def radio_acquire_tx_def
        radio_send_acquired_def Let_def case_prod_unfold w
        split: event_type.split option.split bool.split)
qed

lemma receiver_step_inv:
  assumes L: "slot_laws P avail pending" and Q: "queue_laws P queued"
    and k: "fw_held avail pending k s" and ev: "\<forall>ev \<in> set (queued (world s)). event_wf ev"
  shows "fw_held avail pending k (receiver_step P s)"
    "\<forall>ev \<in> set (queued (world (receiver_step P s))). event_wf ev"
    "same_control s (receiver_step P s)"
proof -
  show "fw_held avail pending k (receiver_step P s)"
    using receiver_step_ok(1) [OF L Q] ev by (intro fw_held_blind [OF blind_receiver k]) simp
  let ?r = "p_queue_receive P (world s)"
  show "\<forall>ev \<in> set (queued (world (receiver_step P s))). event_wf ev"
    using receiver_frame_keeps [OF queue_laws_radio [OF Q]] ev Q
    by (cases "queued (world s)")
      (simp_all add: receiver_step_def queue_laws_def case_prod_unfold)
  obtain n where "fw_ok avail pending (s\<lparr>current_tx_window := n\<rparr>)" using k by (rule fw_held_window)
  then have "tx_balance (g_metrics (receiver_step P s)) = tx_balance (g_metrics s)"
    using receiver_step_ok(2) [OF L Q, of "s\<lparr>current_tx_window := n\<rparr>"] ev
    by (simp add: blindD [OF blind_receiver])
  then show "same_control s (receiver_step P s)" by (simp add: same_control_def frame_simps)
qed

section \<open>The generator\<close>

lemma blind_send_one:
  "send_one P ty st q len dl sch (s\<lparr>current_tx_window := n\<rparr>) =
     (let r = send_one P ty st q len dl sch s in (fst r, (snd r)\<lparr>current_tx_window := n\<rparr>))"
  by (simp add: send_one_def radio_acquire_tx_def radio_release_tx_def radio_send_acquired_def
      Let_def case_prod_unfold split: bool.split option.split)

lemma send_next_inv:
  fixes ty :: u8 and dl :: u64 and sch :: bool and l :: gen_local
  assumes L: "slot_laws P avail pending" and k: "fw_held avail pending k s"
    and i: "i < HARNESS_MAX_STREAMS" and len: "packet_len_ok len"
  defines "s' \<equiv> snd (send_next P ty i len dl sch l s)"
  shows "fw_held avail pending k s'" "same_control s s'"
    "radio_keeps P queued \<Longrightarrow> queued (world s') = queued (world s)"
proof -
  let ?q = "gl_sequences l ! i"
  let ?h = "\<lambda>s. snd (send_one P ty (of_nat i) ?q len dl sch s)"
  have s': "s' = ?h s" by (simp add: s'_def send_next_def Let_def case_prod_unfold)
  have st: "unat (of_nat i :: u16) < HARNESS_MAX_STREAMS"
    using i by (simp add: HARNESS_MAX_STREAMS_def unsigned_of_nat take_bit_nat_eq_self)
  have ok: "fw_ok avail pending (?h s) \<and> tx_balance (g_metrics (?h s)) = tx_balance (g_metrics s)"
    if "fw_ok avail pending s" for s
  proof -
    obtain f where "encode_frame (so_header P ty (of_nat i) ?q len s) (fill_packet len) = Some f"
      "unat len \<le> HARNESS_MAX_PACKET_SIZE" using encode_generated [OF len] by blast
    from send_one_ok [OF L that st this] show ?thesis by simp
  qed
  have b: "blind ?h" by (rule blindI) (simp_all add: blind_send_one Let_def frame_simps)
  show "fw_held avail pending k s'" unfolding s' using ok by (intro fw_held_blind [OF b k]) simp
  obtain n where "fw_ok avail pending (s\<lparr>current_tx_window := n\<rparr>)" using k by (rule fw_held_window)
  then have "tx_balance (g_metrics s') = tx_balance (g_metrics s)"
    using ok [of "s\<lparr>current_tx_window := n\<rparr>"] by (simp add: s' blind_send_one Let_def)
  then show "same_control s s'" by (simp add: s' same_control_def frame_simps)
  show "radio_keeps P queued \<Longrightarrow> queued (world s') = queued (world s)"
    unfolding s' by (rule send_one_keeps)
qed

lemma same_control_trans: "same_control s t \<Longrightarrow> same_control t u \<Longrightarrow> same_control s u"
  by (simp add: same_control_def)

lemma world_only_same_control: "world_only v s s' \<Longrightarrow> same_control s s'"
  by (simp add: world_only_def same_control_def)

lemma wait_deadline_world_only:
  assumes "wait_deadline P d s = Some s'" and "neutral_calls P v"
  shows "world_only v s s'"
proof -
  have "keeps_waiting P v" using assms(2) by (simp add: neutral_calls_def keeps_waiting_def)
  then show ?thesis using wait_deadline_frame [OF assms(1)] by (simp add: world_only_def)
qed

lemma gen_turn_inv:
  assumes L: "slot_laws P avail pending" and Q: "queue_laws P queued"
    and k: "fw_held avail pending k s" and c: "gen_config_ok (g_config s)"
    and r: "gen_turn P l s = Some r"
  shows "fw_held avail pending k (snd r)" "same_control s (snd r)"
    "queued (world (snd r)) = queued (world s)"
proof -
  obtain s' ty i len dl sch where s': "s' = s \<or> wait_deadline P dl s = Some s'"
    and snd_r: "snd r = snd (send_next P ty i len dl sch l s')"
    and i: "i < HARNESS_MAX_STREAMS" "packet_len_ok len"
    using gen_turn_cases [OF r] c by metis
  have w: "world_only (slots avail pending) s s'" "world_only queued s s'"
    using s' wait_deadline_world_only [OF _ slot_laws_neutral [OF L]]
      wait_deadline_world_only [OF _ queue_laws_neutral [OF Q]] by auto
  have k': "fw_held avail pending k s'" using k fw_held_world_only [OF w(1)] by simp
  note n = send_next_inv [OF L k' i, where ty = ty and dl = dl and sch = sch and l = l]
  show "fw_held avail pending k (snd r)" unfolding snd_r by (rule n)
  show "same_control s (snd r)"
    unfolding snd_r using n(2) w(1) by (blast intro: same_control_trans world_only_same_control)
  show "queued (world (snd r)) = queued (world s)"
    unfolding snd_r using n(3) [OF queue_laws_radio [OF Q]] world_onlyD(7) [OF w(2)] by simp
qed

text \<open>The other parts of the task read the timer and set the time stamps, and at last the state.\<close>

lemma gen_edges_inv:
  assumes L: "slot_laws P avail pending" and Q: "queue_laws P queued"
    and k: "fw_held avail pending k s"
  shows "fw_held avail pending k (snd (gen_begin P s))" "same_control s (snd (gen_begin P s))"
    "queued (world (snd (gen_begin P s))) = queued (world s)"
    "world_only (slots avail pending) s (snd (gen_cond P l s))"
    "world_only queued s (snd (gen_cond P l s))"
    "fw_held avail pending k (gen_finish P s)"
    "queued (world (gen_finish P s)) = queued (world s)"
    "tx_balance (g_metrics (gen_finish P s)) = tx_balance (g_metrics s)"
    "g_state (gen_finish P s) = (if g_state s = STATE_ERROR then STATE_ERROR else STATE_FINISHED)"
    "\<not> gen_handle (gen_finish P s)" "g_config (gen_finish P s) = g_config s"
    "queue_ready (gen_finish P s) = queue_ready s"
proof -
  have t: "queued (snd (p_timer P w)) = queued w" "slots avail pending (snd (p_timer P w)) = slots avail pending w" for w
    using Q slot_neutral [OF L] by (simp_all add: queue_laws_def neutral_calls_def keeps_def)
  show "world_only (slots avail pending) s (snd (gen_cond P l s))"
    "world_only queued s (snd (gen_cond P l s))"
    by (simp_all add: gen_cond_def world_only_def t case_prod_unfold)
  have b: "tx_balance (m\<lparr>start_us := x\<rparr>) = tx_balance m" "tx_balance (m\<lparr>end_us := x\<rparr>) = tx_balance m" for m x
    by (simp_all add: tx_balance_def)
  show "fw_held avail pending k (snd (gen_begin P s))" "same_control s (snd (gen_begin P s))"
    "queued (world (snd (gen_begin P s))) = queued (world s)"
    using k by (simp_all add: gen_begin_def same_control_def fw_held_def t b Let_def case_prod_unfold)
  show "fw_held avail pending k (gen_finish P s)"
    "queued (world (gen_finish P s)) = queued (world s)"
    "tx_balance (g_metrics (gen_finish P s)) = tx_balance (g_metrics s)"
    "g_state (gen_finish P s) = (if g_state s = STATE_ERROR then STATE_ERROR else STATE_FINISHED)"
    "\<not> gen_handle (gen_finish P s)" "g_config (gen_finish P s) = g_config s"
    "queue_ready (gen_finish P s) = queue_ready s"
    using k by (simp_all add: gen_finish_def fw_held_def t b Let_def case_prod_unfold)
qed

section \<open>The waiting command\<close>

fun held_in :: "phase \<Rightarrow> nat" where
  "held_in (Fence k) = k"
| "held_in _ = 0"

definition held_after :: "verdict \<Rightarrow> nat" where
  "held_after v = (case v of Again ph \<Rightarrow> held_in ph | _ \<Rightarrow> 0)"

lemma give_slots_held:
  assumes L: "slot_laws P avail pending" and k: "fw_held avail pending k s"
  shows "fw_held avail pending 0 (give_slots P k s)"
  using k give_slots_account [OF L, of s k] by (simp add: fw_held_def frame_simps del: fw_held_0)

lemma phase_step_inv:
  assumes L: "slot_laws P avail pending" and Q: "queue_laws P queued"
    and k: "fw_held avail pending (held_in ph) s" and ev: "\<forall>ev \<in> set (queued (world s)). event_wf ev"
    and r: "phase_step P ph s = (v, s')"
  shows "fw_held avail pending (held_after v) s' \<and> same_control s s' \<and>
    (\<forall>ev \<in> set (queued (world s')). event_wf ev)"
proof (cases ph)
  case (Wait_Generator d)
  have "world_only (slots avail pending) s s'" "world_only queued s s'" "held_after v = 0"
    using r Wait_Generator slot_laws_neutral [OF L] queue_laws_neutral [OF Q]
    by (auto simp: world_only_def neutral_calls_def keeps_def keeps_world_def held_after_def
        case_prod_unfold Let_def split: if_splits)
  then show ?thesis
    using k ev Wait_Generator fw_held_world_only world_only_same_control
    by (metis held_in.simps(2) world_onlyD(7))
next
  case Post_Barrier
  have q: "queued (snd (p_current_task P w)) = queued w" for w
    using queue_laws_neutral [OF Q] by (simp add: neutral_calls_def keeps_def)
  have send: "\<forall>ev \<in> set (queued (snd (p_queue_send P e t w))). event_wf ev"
    if "event_wf e" "\<forall>ev \<in> set (queued w). event_wf ev" for e t w
    using Q that by (auto simp: queue_laws_def)
  have "\<forall>ev \<in> set (queued (world s')). event_wf ev"
  proof (cases "queue_ready s")
    case True
    let ?c = "p_current_task P (world s)"
    have eq: "world s' = snd (p_queue_send P ((zero_event EV_BARRIER)\<lparr>ev_waiter := fst ?c\<rparr>)
        (p_ms_to_ticks P 2000) (snd ?c))"
      using r Post_Barrier True by (auto simp: case_prod_unfold Let_def)
    have "\<forall>ev \<in> set (queued (snd ?c)). event_wf ev" using ev by (simp add: q)
    then show ?thesis unfolding eq by (rule send [OF event_wf_zero(2)])
  next
    case False
    then show ?thesis using r Post_Barrier ev by simp
  qed
  moreover have "fw_held avail pending 0 s' \<and> same_control s s' \<and> held_after v = 0"
    using r Post_Barrier k slot_neutral [OF L]
    by (auto simp: fw_held_def same_control_def held_after_def case_prod_unfold Let_def
        simp del: fw_held_0 split: if_splits)
  ultimately show ?thesis by metis
next
  case Await_Barrier
  have "world_only (slots avail pending) s s'" "world_only queued s s'" "held_after v = 0"
    using r Await_Barrier slot_laws_neutral [OF L] queue_laws_neutral [OF Q]
    by (auto simp: world_only_def neutral_calls_def keeps_def held_after_def case_prod_unfold Let_def
        split: if_splits)
  then show ?thesis
    using k ev Await_Barrier fw_held_world_only world_only_same_control
    by (metis held_in.simps(4) world_onlyD(7))
next
  case (Fence n)
  let ?t = "call (p_sem_take P (p_ms_to_ticks P 2000)) s"
  have ev': "\<forall>ev \<in> set (queued (world s')). event_wf ev"
    using r Fence ev slot_calls_keep(2) [OF radio_keeps_only [OF queue_laws_radio [OF Q]]] Q
    by (auto simp: case_prod_unfold Let_def queue_laws_def keeps_def split: if_splits)
  have same: "same_control s s'"
    using r Fence by (auto simp: same_control_def frame_simps case_prod_unfold Let_def split: if_splits)
  have take: "fw_held avail pending (n + of_bool (fst ?t)) (snd ?t)"
    using k Fence slot_take [OF L, of "world s" "p_ms_to_ticks P 2000"] by (simp add: fw_held_def)
  have "fw_held avail pending (held_after v) s'"
    using r Fence k take give_slots_held [OF L, of n s] give_slots_held [OF L, of n "snd ?t"]
    by (auto simp: held_after_def case_prod_unfold Let_def simp del: fw_held_0 split: if_splits)
  with ev' same show ?thesis by blast
qed

section \<open>The invariant\<close>

definition held_by :: "job option \<Rightarrow> nat" where
  "held_by j = (case j of None \<Rightarrow> 0
     | Some x \<Rightarrow> (case j_phases x of [] \<Rightarrow> 0 | ph # _ \<Rightarrow> held_in ph))"

definition job_ok :: "job option \<Rightarrow> bool" where
  "job_ok j \<longleftrightarrow> (case j of None \<Rightarrow> True | Some x \<Rightarrow> (\<forall>ph \<in> set (tl (j_phases x)). held_in ph = 0))"

definition sys_inv ::
  "('w \<Rightarrow> nat) \<Rightarrow> ('w \<Rightarrow> nat) \<Rightarrow> ('w \<Rightarrow> event list) \<Rightarrow> 'w sys \<Rightarrow> bool" where
  "sys_inv avail pending queued y \<longleftrightarrow>
     fw_held avail pending (held_by (sy_job y)) (sy_fw y) \<and> job_ok (sy_job y) \<and>
     tx_balance (g_metrics (sy_fw y)) = 0 \<and> config_in_use (sy_fw y) \<and> queue_ready (sy_fw y) \<and>
     (gen_handle (sy_fw y) \<longleftrightarrow> sy_gen y \<noteq> Gen_None) \<and>
     (\<forall>ev \<in> set (queued (world (sy_fw y))). event_wf ev)"

lemma sys_invI:
  assumes "fw_held avail pending (held_by (sy_job y)) (sy_fw y)" "job_ok (sy_job y)"
    "tx_balance (g_metrics (sy_fw y)) = 0" "config_in_use (sy_fw y)" "queue_ready (sy_fw y)"
    "gen_handle (sy_fw y) \<longleftrightarrow> sy_gen y \<noteq> Gen_None"
    "\<forall>ev \<in> set (queued (world (sy_fw y))). event_wf ev"
  shows "sys_inv avail pending queued y"
  using assms by (simp add: sys_inv_def)

lemma sys_invD:
  assumes "sys_inv avail pending queued y"
  shows "fw_held avail pending (held_by (sy_job y)) (sy_fw y)" "job_ok (sy_job y)"
    "tx_balance (g_metrics (sy_fw y)) = 0" "config_in_use (sy_fw y)" "queue_ready (sy_fw y)"
    "gen_handle (sy_fw y) \<longleftrightarrow> sy_gen y \<noteq> Gen_None"
    "\<forall>ev \<in> set (queued (world (sy_fw y))). event_wf ev"
  using assms by (simp_all add: sys_inv_def)

text \<open>The state changes only by commands and by the end of the generator's task.\<close>

definition sys_edge :: "'w sys \<Rightarrow> 'w sys \<Rightarrow> bool" where
  "sys_edge y y' \<longleftrightarrow>
     (let a = g_state (sy_fw y); b = g_state (sy_fw y') in
      (command_edge a b \<or> (sy_gen y \<noteq> Gen_None \<and> b = STATE_FINISHED \<and> a \<noteq> STATE_ERROR)) \<and>
      (a \<in> {STATE_ARMED, STATE_RUNNING} \<longrightarrow> g_config (sy_fw y') = g_config (sy_fw y)))"

lemma config_in_use_same: "same_control s s' \<Longrightarrow> config_in_use s \<Longrightarrow> config_in_use s'"
  by (simp add: same_control_def config_in_use_def)

text \<open>A step that keeps the control globals keeps the invariant if it keeps slots and events.\<close>

lemma sys_inv_same:
  assumes inv: "sys_inv avail pending queued y" and same: "same_control (sy_fw y) s"
    and "fw_held avail pending (held_by j) s" "\<forall>ev \<in> set (queued (world s)). event_wf ev" "job_ok j"
    and g: "g \<noteq> Gen_None \<longleftrightarrow> sy_gen y \<noteq> Gen_None"
  shows "sys_inv avail pending queued (y\<lparr>sy_fw := s, sy_job := j, sy_gen := g\<rparr>)"
    "sys_edge y (y\<lparr>sy_fw := s, sy_job := j, sy_gen := g\<rparr>)"
proof -
  note D = sys_invD [OF inv]
  show "sys_inv avail pending queued (y\<lparr>sy_fw := s, sy_job := j, sy_gen := g\<rparr>)"
    using assms D config_in_use_same [OF same D(4)]
    by (intro sys_invI) (simp_all add: same_control_def)
  show "sys_edge y (y\<lparr>sy_fw := s, sy_job := j, sy_gen := g\<rparr>)"
    using same by (simp add: sys_edge_def same_control_def command_edge_def Let_def)
qed

lemma job_turn_inv:
  assumes L: "slot_laws P avail pending" and Q: "queue_laws P queued"
    and inv: "sys_inv avail pending queued y" and j: "sy_job y = Some j"
    and r: "job_turn P j (sy_fw y) = (j', s)"
  shows "sys_inv avail pending queued (y\<lparr>sy_fw := s, sy_job := j'\<rparr>)"
    "sys_edge y (y\<lparr>sy_fw := s, sy_job := j'\<rparr>)"
proof -
  note D = sys_invD [OF inv]
  note same = sys_inv_same [OF inv, where g = "sy_gen y"]
  note fs = replies_world_only(2) [OF slot_laws_neutral [OF L], where cid = "j_cid j"]
    and fq = replies_world_only(2) [OF queue_laws_neutral [OF Q], where cid = "j_cid j"]
  have fail: "same_control t (fail_job P j t)" "fw_held avail pending k (fail_job P j t) = fw_held avail pending k t"
    "queued (world (fail_job P j t)) = queued (world t)" for t k
    unfolding fail_job_def
    by (rule world_only_same_control [OF fs] fw_held_world_only [OF fs] world_onlyD(7) [OF fq])+
  have "sys_inv avail pending queued (y\<lparr>sy_fw := s, sy_job := j'\<rparr>) \<and> sys_edge y (y\<lparr>sy_fw := s, sy_job := j'\<rparr>)"
  proof (cases "j_phases j")
    case Nil
    then have eq: "j' = None" "s = answer_job P j (sy_fw y)" using r by (simp_all add: job_turn_def)
    note e = answer_job_effect [OF L Q, of "sy_fw y" j, unfolded command_effect_def]
    have "gen_handle s = gen_handle (sy_fw y)"
      by (simp add: eq answer_job_def send_state_def send_json_def case_prod_unfold Let_def split: answer.split)
    moreover have "ctl_inv avail pending (sy_fw y)"
      using D Nil j by (simp add: ctl_inv_def held_by_def)
    ultimately show ?thesis
      using e D eq(2) unfolding eq(1)
      by (auto simp: sys_inv_def sys_edge_def ctl_inv_def held_by_def job_ok_def Let_def)
  next
    case (Cons ph rest)
    obtain v t where v: "phase_step P ph (sy_fw y) = (v, t)" by fastforce
    have k: "fw_held avail pending (held_in ph) (sy_fw y)" and rest: "\<forall>ph \<in> set rest. held_in ph = 0"
      using D(1,2) Cons j by (simp_all add: held_by_def job_ok_def)
    note i = phase_step_inv [OF L Q k D(7) v]
    show ?thesis
    proof (cases v)
      case Next
      then have eq: "j' = Some (j\<lparr>j_phases := rest\<rparr>)" "s = t" using r v Cons by (simp_all add: job_turn_def)
      have "held_by j' = 0" "job_ok j'"
        using rest by (cases rest; simp add: eq held_by_def job_ok_def)+
      then show ?thesis using same [of s j'] i Next eq(2) by (simp add: held_after_def)
    next
      case (Again ph')
      then have eq: "j' = Some (j\<lparr>j_phases := ph' # rest\<rparr>)" "s = t"
        using r v Cons by (simp_all add: job_turn_def)
      show ?thesis
        using same [of s j'] i Again eq rest by (simp add: held_after_def held_by_def job_ok_def)
    next
      case Failed
      then have eq: "j' = None" "s = fail_job P j t" using r v Cons by (simp_all add: job_turn_def)
      show ?thesis
        using same [of s j'] i Failed eq fail fail(2) [of 0] same_control_trans [OF _ fail(1)]
        by (simp add: held_after_def held_by_def job_ok_def)
    qed
  qed
  then show "sys_inv avail pending queued (y\<lparr>sy_fw := s, sy_job := j'\<rparr>)"
    "sys_edge y (y\<lparr>sy_fw := s, sy_job := j'\<rparr>)" by simp_all
qed

lemma command_inv:
  assumes L: "slot_laws P avail pending" and N: "peer_laws P peers" and Q: "queue_laws P queued"
    and inv: "sys_inv avail pending queued y" and j: "sy_job y = None"
    and r: "control_turn P J (sy_fw y) = Some (j', s)"
  defines "y' \<equiv> y\<lparr>sy_fw := s, sy_job := j', sy_gen := spawned (sy_fw y) s (sy_gen y)\<rparr>"
  shows "sys_inv avail pending queued y'" "sys_edge y y'"
proof -
  note D = sys_invD [OF inv]
  have e: "command_effect avail pending queued (sy_fw y) s" "new_job j'"
    using control_turn_effect [OF L N Q r] by simp_all
  have "ctl_inv avail pending s"
    using e(1) D j by (simp add: command_effect_def ctl_inv_def held_by_def)
  moreover have "held_by j' = 0" "job_ok j'"
    using e(2) by (auto simp: new_job_def held_by_def job_ok_def drain_phases_def split: option.split)
  moreover have "gen_handle s \<longleftrightarrow> spawned (sy_fw y) s (sy_gen y) \<noteq> Gen_None"
    using e(1) D(6) by (auto simp: spawned_def command_effect_def)
  ultimately show "sys_inv avail pending queued y'"
    using e(1) D by (intro sys_invI) (simp_all add: y'_def ctl_inv_def command_effect_def)
  show "sys_edge y y'"
    using e(1) by (simp add: y'_def sys_edge_def command_effect_def Let_def)
qed

lemma control_step_inv:
  assumes L: "slot_laws P avail pending" and N: "peer_laws P peers" and Q: "queue_laws P queued"
    and inv: "sys_inv avail pending queued y" and r: "control_step P J y = Some y'"
  shows "sys_inv avail pending queued y' \<and> sys_edge y y'"
proof (cases "sy_job y")
  case None
  then show ?thesis
    using r command_inv [OF L N Q inv None] by (auto simp: control_step_def split: option.splits)
next
  case (Some j)
  then show ?thesis
    using r job_turn_inv [OF L Q inv Some] by (auto simp: control_step_def split: prod.splits)
qed

lemma generator_step_inv:
  assumes L: "slot_laws P avail pending" and Q: "queue_laws P queued"
    and inv: "sys_inv avail pending queued y" and r: "generator_step P y = Some y'"
  shows "sys_inv avail pending queued y' \<and> sys_edge y y'"
proof -
  note D = sys_invD [OF inv]
  note edges = gen_edges_inv [OF L Q]
  note same = sys_inv_same [OF inv, where j = "sy_job y"]
  show ?thesis
  proof (cases "sy_gen y")
    case Gen_None
    then show ?thesis using r by (simp add: generator_step_def)
  next
    case Gen_Created
    then show ?thesis
      using r same [of "snd (gen_begin P (sy_fw y))" "Gen_Running (fst (gen_begin P (sy_fw y)))"]
        edges(1-3) [OF D(1)] D
      by (simp add: generator_step_def case_prod_unfold Let_def)
  next
    case (Gen_Running l)
    define s where "s = snd (gen_cond P l (sy_fw y))"
    have w: "world_only (slots avail pending) (sy_fw y) s" "world_only queued (sy_fw y) s"
      using edges(4,5) [OF D(1)] by (simp_all add: s_def)
    have k: "fw_held avail pending (held_by (sy_job y)) s"
      using D(1) fw_held_world_only [OF w(1)] by simp
    have c: "config_ok (g_config s)"
      using D(4,6) Gen_Running world_onlyD(1) [OF w(1)] by (simp add: config_in_use_def)
    show ?thesis
    proof (cases "fst (gen_cond P l (sy_fw y))")
      case True
      then obtain t where t: "gen_turn P l s = Some t"
        and y': "y' = y\<lparr>sy_fw := snd t, sy_gen := Gen_Running (fst t)\<rparr>"
        using r Gen_Running
        by (auto simp: generator_step_def s_def case_prod_unfold split: option.splits)
      note i = gen_turn_inv [OF L Q k config_okD(1) [OF c] t]
      show ?thesis
        using same [of "snd t" "Gen_Running (fst t)"] i D Gen_Running world_onlyD(7) [OF w(2)]
          same_control_trans [OF world_only_same_control [OF w(1)] i(2)]
        by (simp add: y')
    next
      case False
      then have y': "y' = y\<lparr>sy_fw := gen_finish P s, sy_gen := Gen_None\<rparr>"
        using r Gen_Running by (simp add: generator_step_def s_def case_prod_unfold Let_def)
      note f = edges(6-12) [OF k]
      show ?thesis
        using f D c w Gen_Running
        by (auto simp: y' sys_inv_def sys_edge_def config_in_use_def Let_def command_edge_def
            dest: world_onlyD)
    qed
  qed
qed

lemma sys_step_inv:
  assumes L: "slot_laws P avail pending" and N: "peer_laws P peers" and Q: "queue_laws P queued"
    and inv: "sys_inv avail pending queued y" and r: "sys_step P J avail pending queued y y'"
  shows "sys_inv avail pending queued y' \<and> sys_edge y y'"
proof -
  note D = sys_invD [OF inv]
  note same = sys_inv_same [OF inv, where j = "sy_job y" and g = "sy_gen y"]
  from r show ?thesis
  proof cases
    case (step_rx info data len)
    then show ?thesis
      using same [OF same_control_callbacks(2)] rx_callback_inv [OF L Q D(1,7)] D(2) by simp
  next
    case (step_tx w ok)
    have "same_control (sy_fw y) (tx_callback P ok ((sy_fw y)\<lparr>world := w\<rparr>))"
      using same_control_callbacks(1) [of "(sy_fw y)\<lparr>world := w\<rparr>" P ok] by (simp add: same_control_def)
    then show ?thesis
      using same tx_callback_inv [OF L Q D(1,7) step_tx(2-4)] D(2) step_tx(1) by simp
  next
    case step_receiver
    then show ?thesis using same receiver_step_inv [OF L Q D(1,7)] D(2) by simp
  next
    case step_generator
    then show ?thesis using generator_step_inv [OF L Q inv] by blast
  next
    case step_control
    then show ?thesis using control_step_inv [OF L N Q inv] by blast
  next
    case (step_time w)
    let ?s = "(sy_fw y)\<lparr>world := w\<rparr>"
    have w: "world_only (slots avail pending) (sy_fw y) ?s"
      using step_time by (simp add: world_only_def slots_def)
    have "fw_held avail pending (held_by (sy_job y)) ?s" using D(1) fw_held_world_only [OF w] by simp
    then show ?thesis
      using same [OF world_only_same_control [OF w]] D(2,7) step_time by simp
  qed
qed

section \<open>Start-up\<close>

lemma wifi_calls_slots:
  assumes "slot_laws P avail pending"
  shows "slots avail pending (world (snd (wifi_calls P rs s))) = slots avail pending (world s)"
  using assms by (intro wifi_calls_keeps) (simp add: slot_laws_def)

lemma radio_init_slots:
  assumes L: "slot_laws P avail pending" and ok: "fst (radio_init P s) = ESP_OK"
    and "slots avail pending (world s) = 0"
  shows "slots avail pending (world (snd (radio_init P s))) = 1"
proof -
  have c: "slots avail pending (p_sem_create P m 1 w) = 1" if "slots avail pending w = 0" for m w
    using L that by (simp add: slots_def slot_laws_def)
  show ?thesis
    using ok assms(3)
    by (auto simp: radio_init_def case_prod_unfold Let_def wifi_calls_slots [OF L] c slot_neutral [OF L]
        simp del: wifi_calls.simps One_nat_def split: if_splits)
qed

lemma radio_init_frame:
  "g_config (snd (radio_init P s)) = g_config s" "g_state (snd (radio_init P s)) = g_state s"
  "g_metrics (snd (radio_init P s)) = g_metrics s"
  "current_tx_window (snd (radio_init P s)) = current_tx_window s"
  "queue_ready (snd (radio_init P s)) = queue_ready s"
  "gen_handle (snd (radio_init P s)) = gen_handle s"
  by (simp_all add: radio_init_def case_prod_unfold Let_def frame_simps del: wifi_calls.simps)

lemma radio_init_queue:
  assumes "queue_laws P queued"
  shows "queued (world (snd (radio_init P s))) = queued (world s)"
proof -
  have w: "queued (snd (p_wifi P r w)) = queued w" "queued (p_sem_create P m n w) = queued w" for r m n w
    using assms by (simp_all add: queue_laws_def keeps_def keeps_world_def)
  have "queued (world (snd (wifi_calls P rs t))) = queued (world t)" for rs t
    using w by (intro wifi_calls_keeps) (simp add: keeps_def)
  then show ?thesis
    by (simp add: radio_init_def case_prod_unfold Let_def w del: wifi_calls.simps)
qed

lemma store_ok_boot: "store_ok boot_metrics" and tx_balance_boot: "tx_balance boot_metrics = 0"
proof -
  have "dist_wf zero_distribution"
    by (simp add: zero_distribution_def dist_wf_def distribution_reset_def)
  then show "store_ok boot_metrics"
    using store_ok_reset
    by (simp add: boot_metrics_def store_ok_def metrics_wf_def totals_consistent_def stream_total_def)
  show "tx_balance boot_metrics = 0"
    using tx_balance_reset by (simp add: boot_metrics_def tx_balance_def)
qed

lemma sys_inv_initial:
  assumes L: "slot_laws P avail pending" and Q: "queue_laws P queued"
    and up: "radio_up P w" and w: "avail w = 0" "pending w = 0"
  shows "sys_inv avail pending queued (initial_sys P w)"
proof -
  let ?r = "receiver_start P (boot_fw w)"
  have r: "slots avail pending (world ?r) = 0" "queued (world ?r) = []"
    using L Q w by (simp_all add: receiver_start_def boot_fw_def slot_neutral [OF L] slots_def [of _ _ w]
        keeps_world_def slot_laws_def queue_laws_def neutral_calls_def keeps_def Let_def)
  let ?s = "sy_fw (initial_sys P w)"
  have s: "g_metrics ?s = boot_metrics" "current_tx_window ?s = 1" "queue_ready ?s"
    "\<not> gen_handle ?s" "g_state ?s = STATE_IDLE"
    using up by (simp_all add: initial_sys_def app_main_def radio_up_def control_begin_def
        radio_init_frame receiver_start_def boot_fw_def case_prod_unfold Let_def)
  have "world ?s = snd (p_task_create P ''control'' (world (snd (radio_init P ?r))))"
    using up by (simp add: initial_sys_def app_main_def radio_up_def control_begin_def case_prod_unfold
        Let_def)
  then have "slots avail pending (world ?s) = 1" "queued (world ?s) = []"
    using radio_init_slots [OF L] radio_init_queue [OF Q] up r queue_laws_neutral [OF Q]
    by (simp_all add: radio_up_def slot_neutral [OF L] neutral_calls_def keeps_def)
  then show ?thesis
    using s store_ok_boot tx_balance_boot
    by (intro sys_invI)
      (simp_all add: initial_sys_def held_by_def job_ok_def config_in_use_def fw_ok_def slots_ok_def
        HARNESS_MAX_TX_WINDOW_def)
qed

lemma reachable_inv:
  assumes L: "slot_laws P avail pending" and N: "peer_laws P peers" and Q: "queue_laws P queued"
    and r: "reachable P J avail pending queued y"
  shows "sys_inv avail pending queued y"
  using r
proof induction
  case (reach_start w)
  then show ?case by (intro sys_inv_initial [OF L Q])
next
  case (reach_step y y')
  then show ?case using sys_step_inv [OF L N Q] by blast
qed

end
