(* ===== verification/End_To_End.thy ===== *)
theory End_To_End
  imports System_Inv
begin

text \<open>
  Facts that span two devices or two directions: the address a device reports is read back by the
  parser of the device it is configured on, and the loss a receiver reports for a stream is the
  number of the generator's frames that did not arrive.
\<close>

section \<open>Addresses\<close>

lemma less_16_cases:
  "(n :: nat) < 16 \<Longrightarrow> n \<in> {0, 1, 2, 3, 4, 5, 6, 7, 8, 9, 10, 11, 12, 13, 14, 15}"
  unfolding insert_iff empty_iff by arith

lemma hex_value_digit:
  assumes "n < 16"
  shows "hex_value (hex_digit n) = int n" "\<not> c_isspace (hex_digit n)"
  using less_16_cases [OF assms]
  by (auto simp: hex_digit_def hex_value_def c_tolower_def c_isupper_def c_isspace_def code_def Let_def)

lemma scan_hex2_hex2: "scan_hex2 (hex2 b @ cs) = Some (ucast b, cs)"
proof -
  have "unat b div 16 < 16" "unat b mod 16 < 16" using unsigned_less [of b, where 'a = nat] by simp_all
  note d = hex_value_digit [OF this(1)] hex_value_digit [OF this(2)]
  have "16 * int (unat b div 16) + int (unat b mod 16) = uint b"
    by (metis of_nat_add of_nat_mult of_nat_numeral div_mult_mod_eq mult.commute uint_nat)
  then show ?thesis
    using d scan_hex2_digits [of "hex_digit (unat b div 16)" "hex_digit (unat b mod 16)" cs]
    by (simp add: hex2_def)
qed

lemma scan_format:
  "length bs = Suc n \<Longrightarrow> scan_octets n (format_mac bs) = Some (map ucast bs)"
proof (induction bs arbitrary: n rule: format_mac.induct)
  case (2 b)
  then show ?case using scan_hex2_hex2 [of b "[]"] by simp
next
  case (3 b c bs)
  then obtain m where "n = Suc m" "length (c # bs) = Suc m" by (cases n) auto
  then show ?case using 3 scan_hex2_hex2 [of b] by simp
qed simp

lemma parse_format_mac:
  assumes "length m = 6"
  shows "parse_mac (Some (format_mac m)) = Some m"
proof -
  have "(ucast (ucast (b :: u8) :: u32) :: u8) = b" for b
    by (rule bit_word_eqI) (simp add: bit_simps)
  then show ?thesis using scan_format [of m 5] assms by (simp add: parse_mac_def comp_def)
qed

section \<open>Loss\<close>

text \<open>
  A sink that measures the run \<open>c\<close>: \<open>arrivals\<close> are frames of the generator, each with its RSSI and
  arrival time, in the order the sink's task handles them.
\<close>

definition receive_all :: "'w platform \<Rightarrow> (u8 list \<times> u8 \<times> u64) list \<Rightarrow> 'w fw \<Rightarrow> 'w fw" where
  "receive_all P arrivals s = foldl (\<lambda>s (f, rssi, at_us). receiver_event P (rx_event f rssi at_us) s) s arrivals"

definition measuring_sink :: "harness_config \<Rightarrow> 'w fw \<Rightarrow> bool" where
  "measuring_sink c s \<longleftrightarrow> measurement_state (g_state s) \<and> run_id (g_config s) = run_id c \<and>
     role (g_config s) \<noteq> ROLE_ECHO_RESPONDER"

lemma sink_event:
  fixes P :: "'w platform" and r :: u8 and t :: u64
  assumes sink: "measuring_sink c s" and f: "run_frame c f" "length f \<le> HARNESS_MAX_PACKET_SIZE"
    and n: "length (m_streams (g_metrics s)) = HARNESS_MAX_STREAMS"
  defines "s' \<equiv> receiver_event P (rx_event f r t) s"
  shows "measuring_sink c s'" "length (m_streams (g_metrics s')) = HARNESS_MAX_STREAMS"
    "i < HARNESS_MAX_STREAMS \<Longrightarrow> m_streams (g_metrics s') ! i =
       foldl sequence_observe (m_streams (g_metrics s) ! i) (stream_seqs i [f])"
proof -
  obtain h where h: "decode_frame f = Some h" "h_run_id h = run_id c" using f by (auto simp: run_frame_def)
  have "unat (h_stream_id h) < HARNESS_MAX_STREAMS"
    using decode_frameD(12) [OF h(1)] by (simp add: HARNESS_MAX_STREAMS_def)
  moreover have "s' = upd_metrics (metrics_rx h r t) s"
    using receiver_frame_eq [OF event_wf_posted(1) [OF f(2)], of P r t s] event_wf_posted(2) [OF f(2)] h sink
    by (simp add: s'_def receiver_event_def measuring_sink_def rx_event_def zero_event_def Let_def)
  ultimately show "measuring_sink c s'" "length (m_streams (g_metrics s')) = HARNESS_MAX_STREAMS"
    "i < HARNESS_MAX_STREAMS \<Longrightarrow> m_streams (g_metrics s') ! i =
       foldl sequence_observe (m_streams (g_metrics s) ! i) (stream_seqs i [f])"
    using sink n h by (simp_all add: measuring_sink_def metrics_rx_fields stream_seqs_def
        List.map_filter_def nth_list_update_if)
qed

lemma stream_seqs_append: "stream_seqs i (fs @ gs) = stream_seqs i fs @ stream_seqs i gs"
  by (simp add: stream_seqs_def List.map_filter_def)

lemma receive_all_streams:
  assumes "measuring_sink c s" "length (m_streams (g_metrics s)) = HARNESS_MAX_STREAMS"
    and "i < HARNESS_MAX_STREAMS"
    and "\<forall>f \<in> set (map fst arrivals). run_frame c f \<and> length f \<le> HARNESS_MAX_PACKET_SIZE"
  shows "m_streams (g_metrics (receive_all P arrivals s)) ! i =
    foldl sequence_observe (m_streams (g_metrics s) ! i) (stream_seqs i (map fst arrivals))"
  using assms(1,2,4)
proof (induction arrivals arbitrary: s)
  case Nil
  then show ?case by (simp add: receive_all_def stream_seqs_def List.map_filter_def)
next
  case (Cons a as)
  obtain f r t where a: "a = (f, r, t)" by (cases a)
  have f: "run_frame c f" "length f \<le> HARNESS_MAX_PACKET_SIZE" using Cons.prems a by auto
  note e = sink_event [OF Cons.prems(1) f Cons.prems(2), where P = P and r = r and t = t]
  show ?case
    using Cons.IH [OF e(1,2)] Cons.prems(3) e(3) [OF assms(3)] stream_seqs_append [of i "[f]" "map fst as"]
    by (simp add: a receive_all_def)
qed

text \<open>What a complete set of consecutive numbers and the received ones say about the missing ones.\<close>

lemma card_word_le: "card {q. q \<le> (m :: u32)} = unat m + 1"
proof -
  have "inj_on unat {q. q \<le> m}" by (auto simp: inj_on_def dest: unsigned_word_eqI)
  moreover have "unat ` {q. q \<le> m} = {..unat m}"
  proof
    show "unat ` {q. q \<le> m} \<subseteq> {..unat m}" by (auto simp: word_le_nat_alt)
    show "{..unat m} \<subseteq> unat ` {q. q \<le> m}"
    proof
      fix n assume "n \<in> {..unat m}"
      then have "unat (of_nat n :: u32) = n" "(of_nat n :: u32) \<le> m"
        using unat_u32_less [of m] by (simp_all add: unsigned_of_nat take_bit_nat_eq_self word_le_nat_alt)
      then show "n \<in> unat ` {q. q \<le> m}" by (metis image_eqI mem_Collect_eq)
    qed
  qed
  ultimately show ?thesis using card_image [of unat "{q. q \<le> m}"] by simp
qed

lemma missing_of_sent:
  assumes sent: "sent = map of_nat [0..<n]" and D: "D \<subseteq> set sent" "D \<noteq> {}" and n: "n \<le> 2 ^ 32"
  shows "missing_of D = of_nat (card {q \<in> set sent. q \<le> Max D \<and> q \<notin> D})"
proof -
  have "Max D \<in> set sent" using D Max_in [OF finite_word D(2)] by blast
  then obtain k where k: "k < n" "Max D = of_nat k" using sent by auto
  have uk: "unat (Max D) = k" using k n by (simp add: unsigned_of_nat take_bit_nat_eq_self)
  have "q \<in> set sent" if "q \<le> Max D" for q :: u32
  proof -
    have "unat q < n" using that uk k(1) by (simp add: word_le_nat_alt)
    then have "(of_nat (unat q) :: u32) \<in> set sent" unfolding sent set_map by (intro imageI) simp
    then show ?thesis by simp
  qed
  then have "{q \<in> set sent. q \<le> Max D \<and> q \<notin> D} = {q. q \<le> Max D} - D" by auto
  moreover have "D \<subseteq> {q. q \<le> Max D}" by (auto intro: Max_ge)
  ultimately have "card {q \<in> set sent. q \<le> Max D \<and> q \<notin> D} = unat (Max D) + 1 - card D"
    using card_word_le [of "Max D"] by (simp add: card_Diff_subset)
  then show ?thesis using D by (simp add: missing_of_def)
qed

text \<open>
  The report of a sink on one stream of a run: frames counted, duplicates, and as missing exactly
  the frames sent before the last one that arrived and never received.
\<close>

lemma stream_loss:
  fixes P :: "'w platform"
  assumes log: "run_log c l fs" and sink: "measuring_sink c s" and i: "i < HARNESS_MAX_STREAMS"
    and m: "length (m_streams (g_metrics s)) = HARNESS_MAX_STREAMS" "m_streams (g_metrics s) ! i = zero_stream"
    and arr: "set (map fst arrivals) \<subseteq> set fs" "\<forall>f \<in> set fs. length f \<le> HARNESS_MAX_PACKET_SIZE"
    and win: "in_window {} (stream_seqs i (map fst arrivals))"
    and n: "length (stream_seqs i fs) \<le> 2 ^ 32"
  defines "got \<equiv> stream_seqs i (map fst arrivals)" and "sent \<equiv> stream_seqs i fs"
    and "r \<equiv> m_streams (g_metrics (receive_all P arrivals s)) ! i"
  shows "sm_rx r = of_nat (length got)" "sm_duplicate r = of_nat (length got - card (set got))"
    "got \<noteq> [] \<Longrightarrow> gaps r = of_nat (card {q \<in> set sent. q \<le> Max (set got) \<and> q \<notin> set got})"
proof -
  have f: "\<forall>f \<in> set (map fst arrivals). run_frame c f \<and> length f \<le> HARNESS_MAX_PACKET_SIZE"
    using log arr by (auto simp: run_log_def)
  have r: "r = foldl sequence_observe zero_stream got"
    using receive_all_streams [OF sink m(1) i f, of P] m(2) by (simp add: r_def got_def)
  note c = bitmap_tracker.run_counts [OF win [folded got_def], folded r]
  show "sm_rx r = of_nat (length got)" "sm_duplicate r = of_nat (length got - card (set got))"
    using c by simp_all
  have "set got \<subseteq> set sent"
    using arr(1) by (auto simp: got_def sent_def stream_seqs_def List.map_filter_def)
  moreover have "sent = map of_nat [0..<length sent]" using log i by (simp add: run_log_def sent_def)
  ultimately show "gaps r = of_nat (card {q \<in> set sent. q \<le> Max (set got) \<and> q \<notin> set got})" if "got \<noteq> []"
    using c(4) missing_of_sent [of sent "length sent" "set got"] that n by (simp add: sent_def)
qed

end
