(* ===== verification/Examples.thy ===== *)
theory Examples
  imports End_To_End Host_Protocol
begin

text \<open>
  Concrete inputs the properties are evaluated on: a configuration, the command that sets it, and
  the reference platform from power-on to the configured state.
\<close>

section \<open>A configuration\<close>

definition example_config :: harness_config where
  "example_config = \<lparr>run_id = 7, role = ROLE_GENERATOR, mode = MODE_STREAM,
     peer_mac = [1, 2, 3, 4, 5, 6], band_5ghz = False, country = ''US'', channel = 6,
     phy_rate = ''6m'', tx_power_qdbm = 40, power_save = False, encryption = False,
     key = replicate HARNESS_KEY_SIZE 0, duration_us = 1000, packet_size = 100, streams = 2,
     tx_window = 4, rate_per_stream = 100, probe_rate = 0, background_packet_size = 0,
     background_rate = 0\<rparr>"

definition example_command :: doc where
  "example_command = DObj [(''version'', DNum (d_int 2)), (''id'', DNum (d_int 1)),
     (''cmd'', DStr ''configure''), (''run_id'', DNum (d_int 7)), (''role'', DStr ''generator''),
     (''peer_mac'', DStr ''01:02:03:04:05:06''), (''duration_us'', DNum (d_int 1000)),
     (''radio'', DObj [(''band'', DStr ''2.4ghz''), (''country'', DStr ''US''),
        (''channel'', DNum (d_int 6)), (''phy_rate'', DStr ''6m''), (''tx_power_dbm'', DNum (d_int 10))]),
     (''traffic'', DObj [(''mode'', DStr ''stream''), (''packet_size'', DNum (d_int 100)),
        (''streams'', DNum (d_int 2)), (''tx_window'', DNum (d_int 4)),
        (''packet_rate_per_stream'', DNum (d_int 100))])]"

definition example_json :: "doc cjson" where
  "example_json = doc_json (\<lambda>line. if line = ''configure'' then Some example_command else None)"

lemmas json_eval = example_json_def doc_eval integer_in_range_iff

lemma example_mac: "parse_mac (Some ''01:02:03:04:05:06'') = Some [1, 2, 3, 4, 5, 6]"
  using parse_format_mac [of "[1, 2, 3, 4, 5, 6]"] by (simp add: hex2_def hex_digit_def)

lemma example_parse: "parse_config example_json example_command = Inr example_config"
  by (simp add: parse_config_def parse_identity_def parse_radio_def parse_traffic_def radio_fields_def
      json_eval example_command_def example_config_def example_mac parse_role_def parse_mode_def
      country_ok_def c_isupper_def code_def tx_power_ok_def channel_valid_def phy_valid_def zero_config_def
      harness_limits BENCH_HEADER_SIZE_def UINT32_MAX_INT_def d_less_def d_int_def Let_def)

lemma example_items:
  "cj_parse example_json ''configure'' = Some example_command"
  "string_item example_json example_command ''cmd'' = Some ''configure''"
  "number_item example_json example_command ''id'' d = d_int 1"
  "number_item example_json example_command ''version'' d = d_int 2"
  by (simp_all add: json_eval example_command_def)

section \<open>The reference platform\<close>

lemma ref_calls [simp]:
  "p_sem_create ref_platform m n w = w\<lparr>rw_avail := n\<rparr>"
  "p_sem_take ref_platform t w =
     (if rw_avail w > 0 then (True, w\<lparr>rw_avail := rw_avail w - 1\<rparr>) else (False, w))"
  "p_sem_give ref_platform w =
     (if rw_avail w < HARNESS_MAX_TX_WINDOW then w\<lparr>rw_avail := rw_avail w + 1\<rparr> else w)"
  "p_queue_create ref_platform n w = w\<lparr>rw_queue := []\<rparr>"
  "p_queue_send ref_platform e t w =
     (if length (rw_queue w) < 64 then (True, w\<lparr>rw_queue := rw_queue w @ [e]\<rparr>) else (False, w))"
  "p_queue_receive ref_platform w =
     (case rw_queue w of [] \<Rightarrow> (None, w) | e # es \<Rightarrow> (Some e, w\<lparr>rw_queue := es\<rparr>))"
  "p_task_create ref_platform nm w = (True, w)"
  "p_timer ref_platform w = (rw_clock w, ref_advance 1 w)"
  "p_now_send ref_platform a d w =
     (ESP_OK, w\<lparr>rw_pending := rw_pending w + 1, rw_sent := rw_sent w @ [d]\<rparr>)"
  "p_wifi ref_platform r w = (ESP_OK, w\<lparr>rw_wifi_log := rw_wifi_log w @ [r],
     rw_peers := rw_peers w @ (case r of Now_Add_Peer i \<Rightarrow> [peer_addr i] | _ \<Rightarrow> [])\<rparr>)"
  "p_fetch_peer ref_platform w = (case rw_peers w of [] \<Rightarrow> None | a # _ \<Rightarrow> Some a, w)"
  "p_del_peer ref_platform a w = w\<lparr>rw_peers := removeAll a (rw_peers w)\<rparr>"
  "p_read_line ref_platform w =
     (case rw_in w of [] \<Rightarrow> (None, w) | l # ls \<Rightarrow> (Some l, w\<lparr>rw_in := ls\<rparr>))"
  by (simp_all add: ref_platform_def)

lemma ref_notify:
  "p_current_task ref_platform w = (1, w)" "p_notify_give ref_platform n w = w\<lparr>rw_notified := rw_notified w + 1\<rparr>"
  "p_notify_take ref_platform t w = (rw_notified w > 0, w\<lparr>rw_notified := 0\<rparr>)"
  by (simp_all add: ref_platform_def)

lemma ref_give_slots [simp]:
  "rw_avail (world s) + n \<le> HARNESS_MAX_TX_WINDOW \<Longrightarrow>
     give_slots ref_platform n s = s\<lparr>world := (world s)\<lparr>rw_avail := rw_avail (world s) + n\<rparr>\<rparr>"
  by (induction n arbitrary: s) (simp_all add: exec_def)

lemma ref_take_slots [simp]:
  "n \<le> rw_avail (world s) \<Longrightarrow>
     take_slots ref_platform t n s = (n, s\<lparr>world := (world s)\<lparr>rw_avail := rw_avail (world s) - n\<rparr>\<rparr>)"
  by (induction n arbitrary: s) (simp_all add: call_def Let_def)

lemma ref_no_peers [simp]: "rw_peers w = [] \<Longrightarrow> delete_peers ref_platform w = Some w"
  by (subst delete_peers.simps) simp

text \<open>After power-on.\<close>

definition ref_boot :: ref_world where
  "ref_boot = ref_world0\<lparr>rw_avail := 0, rw_in := [''configure'']\<rparr>"

lemma ref_radio_up: "radio_up ref_platform ref_boot"
  by (simp add: radio_up_def radio_init_def call_def exec_def Let_def)

lemma ref_initial_reachable:
  "reachable ref_platform J rw_avail rw_pending rw_queue (initial_sys ref_platform ref_boot)"
  by (rule reach_start [OF ref_radio_up]) (simp_all add: ref_boot_def ref_world0_def)

definition up_world :: ref_world where
  "up_world = ref_world0\<lparr>rw_in := [''configure''], rw_wifi_log := [Netif_Init, Event_Loop_Create_Default,
     Wifi_Init, Wifi_Set_Storage_Ram, Wifi_Set_Mode_Sta, Wifi_Start, Wifi_Set_Ps_None, Now_Init,
     Now_Register_Send_Cb, Now_Register_Recv_Cb]\<rparr>"

definition up_fw :: "ref_world fw" where
  "up_fw = (boot_fw up_world)\<lparr>g_state := STATE_IDLE, queue_ready := True\<rparr>"

lemma ref_initial: "sy_fw (initial_sys ref_platform ref_boot) = up_fw"
  by (simp add: initial_sys_def app_main_def radio_init_def receiver_start_def boot_fw_def
      ref_boot_def ref_world0_def call_def exec_def control_begin_def up_fw_def up_world_def Let_def
      HARNESS_MAX_TX_WINDOW_def)

text \<open>The command puts the device into the configured state.\<close>

lemma ref_configure:
  "\<exists>s. control_turn ref_platform example_json up_fw = Some (None, s) \<and>
     g_state s = STATE_CONFIGURED \<and> g_config s = example_config"
proof -
  let ?w = "up_world\<lparr>rw_in := []\<rparr>"
  let ?s = "up_fw\<lparr>world := ?w\<rparr>"
  have read: "call (p_read_line ref_platform) up_fw = (Some ''configure'', ?s)"
    by (simp add: call_def up_fw_def boot_fw_def up_world_def ref_world0_def)
  have "\<exists>t. radio_configure ref_platform example_config (?s\<lparr>g_config := example_config\<rparr>) = Some (ESP_OK, t)"
    by (simp add: radio_configure_def radio_wait_idle_def resize_window_def configure_driver_def
        make_rate_config_def example_config_def configure_requests_def call_def
        up_fw_def boot_fw_def up_world_def ref_world0_def HARNESS_MAX_TX_WINDOW_def Let_def)
  then obtain t where t: "radio_configure ref_platform example_config (?s\<lparr>g_config := example_config\<rparr>) =
    Some (ESP_OK, t)" by blast
  have "g_config t = example_config" using radio_configure_frame(1) [OF t] by simp
  moreover have g: "g_state up_fw = STATE_IDLE" by (simp add: up_fw_def)
  have "control_turn ref_platform example_json up_fw =
    Some (None, send_state ref_platform (d_int 1) (t\<lparr>g_metrics := metrics_reset, g_state := STATE_CONFIGURED\<rparr>))"
    using t g by (simp add: control_turn_def read dispatch_def example_items example_parse
        do_configure_def integer_in_range_iff HARNESS_CONTROL_VERSION_def d_eq_int_iff)
  ultimately show ?thesis
    by (simp add: send_state_def send_json_def exec_def)
qed

lemma ref_configured_reachable:
  "\<exists>y. reachable ref_platform example_json rw_avail rw_pending rw_queue y \<and>
     g_state (sy_fw y) = STATE_CONFIGURED \<and> g_config (sy_fw y) = example_config"
proof -
  let ?y = "initial_sys ref_platform ref_boot"
  obtain s where s: "control_turn ref_platform example_json (sy_fw ?y) = Some (None, s)"
    "g_state s = STATE_CONFIGURED" "g_config s = example_config" using ref_configure ref_initial by auto
  have "control_step ref_platform example_json ?y =
    Some (?y\<lparr>sy_fw := s, sy_job := None, sy_gen := spawned (sy_fw ?y) s (sy_gen ?y)\<rparr>)"
    using s(1) by (simp add: control_step_def initial_sys_def)
  from reach_step [OF ref_initial_reachable step_control [OF this]] s(2,3) show ?thesis by auto
qed

section \<open>Running devices and their frames\<close>

definition running_fw :: "ref_world fw" where
  "running_fw = up_fw\<lparr>g_config := example_config, g_state := STATE_RUNNING\<rparr>"

lemma running_fw_ok: "fw_ok rw_avail rw_pending running_fw"
  using store_ok_boot
  by (simp add: running_fw_def up_fw_def up_world_def boot_fw_def fw_ok_def slots_ok_def slots_def
      ref_world0_def HARNESS_MAX_TX_WINDOW_def)

lemma example_gen_config: "gen_config_ok example_config"
  by (simp add: example_config_def gen_config_ok_def packet_len_ok_def harness_limits BENCH_HEADER_SIZE_def)

definition sink_fw :: "ref_world fw" where
  "sink_fw = up_fw\<lparr>g_config := example_config\<lparr>role := ROLE_SINK\<rparr>, g_state := STATE_RUNNING,
     g_metrics := metrics_reset\<rparr>"

lemma sink_fw_measures: "measuring_sink example_config sink_fw"
  by (simp add: sink_fw_def up_fw_def measuring_sink_def measurement_state_def example_config_def)

definition example_header :: "u32 \<Rightarrow> bench_header" where
  "example_header q = packet_header example_config PACKET_STREAM 0 q 100 5"

definition example_frame :: "u32 \<Rightarrow> u8 list" where
  "example_frame q = the (encode_frame (example_header q) (fill_packet 100))"

lemma example_frame:
  "encode_frame (example_header q) (fill_packet 100) = Some (example_frame q)"
  "decode_frame (example_frame q) = Some (example_header q)" "length (example_frame q) = 100"
proof -
  obtain f where f: "encode_frame (example_header q) (fill_packet 100) = Some f"
    using encode_frame_exists [of "example_header q" "fill_packet 100"]
    by (auto simp: example_header_def length_fill_packet HARNESS_MAX_PACKET_SIZE_def)
  then show e: "encode_frame (example_header q) (fill_packet 100) = Some (example_frame q)"
    by (simp add: example_frame_def)
  show d: "decode_frame (example_frame q) = Some (example_header q)"
    using e by (rule decode_encode_frame) (simp add: example_header_def)
  show "length (example_frame q) = 100"
    using decode_frameD(11) [OF d] by (simp add: example_header_def)
qed

lemma example_seqs:
  "stream_seqs i (map example_frame qs) = (if i = 0 then qs else [])"
  by (induction qs)
    (auto simp: stream_seqs_def List.map_filter_def example_frame(2) example_header_def)

lemma example_seqs_3:
  "stream_seqs i [example_frame a, example_frame b, example_frame c] = (if i = 0 then [a, b, c] else [])"
  using example_seqs [of i "[a, b, c]"] by simp

definition example_log_local :: gen_local where
  "example_log_local = (fst (gen_begin ref_platform running_fw))
     \<lparr>gl_sequences := (replicate HARNESS_MAX_STREAMS 0)[0 := 3]\<rparr>"

lemma example_log:
  "run_log example_config example_log_local [example_frame 0, example_frame 1, example_frame 2]"
  using example_frame(2,3)
  by (simp add: run_log_def example_log_local_def example_seqs_3 run_frame_def example_header_def upt_rec
      HARNESS_MAX_STREAMS_def example_config_def nth_list_update)

text \<open>The device with a full event queue.\<close>

definition full_fw :: "ref_world fw" where
  "full_fw = up_fw\<lparr>world := up_world\<lparr>rw_queue := replicate 64 (zero_event EV_TX_OK)\<rparr>\<rparr>"

end
