(* ===== verification/Host_Scenario.thy ===== *)
theory Host_Scenario
  imports End_To_End
begin

text \<open>
  The host's scenarios, \<^verbatim>\<open>host/src/scenario.rs\<close> with the configure command of
  \<^verbatim>\<open>host/src/runner.rs\<close>: what \<^verbatim>\<open>Scenario::validate\<close> accepts, the document the runner sends for
  it, and the proof that the firmware's parser accepts that document and reads every field as the
  host meant it. A \<^verbatim>\<open>Duration\<close> is a number of nanoseconds; names are ASCII strings.
\<close>

section \<open>Scenarios\<close>

datatype band = Ghz2 | Ghz5

datatype traffic_mode = Ping | Stream | Multi_Stream | Saturation | Latency_Under_Load

record radio =
  ra_band :: band
  ra_country :: string
  ra_channel :: u8
  ra_phy_rate :: string
  ra_tx_power_dbm :: cdouble
  ra_power_save :: bool
  ra_encryption :: bool
  ra_key :: "string option"

record traffic =
  tr_mode :: traffic_mode
  tr_streams :: u16
  tr_tx_window :: u16
  tr_packet_size :: u16
  tr_packet_rate_per_stream :: u32
  tr_probe_rate :: u32
  tr_background_packet_size :: u16
  tr_background_rate :: u32

record scenario =
  sc_name :: string
  sc_duration_ns :: nat
  sc_settle_ms :: u64
  sc_radio :: radio
  sc_traffic :: traffic

datatype scenario_error =
  Bad_Name | Bad_Duration | Bad_Packet_Size | Bad_Streams | Bad_Tx_Window | Bad_Channel
| Bad_Country | Bad_Tx_Power | Bad_Key | Bad_Phy_Rate | Bad_Latency_Load | Bad_Packet_Rate

section \<open>Validation\<close>

definition is_ascii_hexdigit :: "char \<Rightarrow> bool" where
  "is_ascii_hexdigit c \<longleftrightarrow> (48 \<le> code c \<and> code c \<le> 57) \<or> (65 \<le> code c \<and> code c \<le> 70) \<or>
     (97 \<le> code c \<and> code c \<le> 102)"

definition channel_ok :: "band \<Rightarrow> u8 \<Rightarrow> bool" where
  "channel_ok b ch = (case b of
       Ghz2 \<Rightarrow> 1 \<le> ch \<and> ch \<le> 14
     | Ghz5 \<Rightarrow> ch \<in> {36, 40, 44, 48, 149, 153, 157, 161, 165})"

definition valid_rate :: "string \<Rightarrow> bool" where
  "valid_rate p \<longleftrightarrow> p \<in> set [''1m'', ''6m'', ''24m'', ''54m'', ''mcs0'', ''mcs7'', ''he-mcs0'', ''he-mcs7'']"

definition validate_radio :: "radio \<Rightarrow> scenario_error option" where
  "validate_radio r =
     (if \<not> channel_ok (ra_band r) (ra_channel r) then Some Bad_Channel
      else if length (ra_country r) \<noteq> 2 \<or> \<not> list_all c_isupper (ra_country r) then Some Bad_Country
      else if d_less (ra_tx_power_dbm r) (d_int 2) \<or> d_less (d_int 20) (ra_tx_power_dbm r) \<or>
              \<not> d_is_integral (d_times4 (ra_tx_power_dbm r)) then Some Bad_Tx_Power
      else if ra_encryption r \<and>
              \<not> (case ra_key r of None \<Rightarrow> False | Some k \<Rightarrow> length k = 32 \<and> list_all is_ascii_hexdigit k)
           then Some Bad_Key
      else if \<not> valid_rate (ra_phy_rate r) \<or> (ra_band r = Ghz5 \<and> ra_phy_rate r = ''1m'')
           then Some Bad_Phy_Rate
      else None)"

definition validate_mode :: "traffic \<Rightarrow> scenario_error option" where
  "validate_mode t =
     (case tr_mode t of
        Saturation \<Rightarrow> None
      | Latency_Under_Load \<Rightarrow>
          if tr_probe_rate t > 0 \<and> tr_background_rate t > 0 \<and>
             BENCH_HEADER_SIZE \<le> unat (tr_background_packet_size t) \<and> tr_background_packet_size t \<le> 250
          then None else Some Bad_Latency_Load
      | _ \<Rightarrow> if tr_packet_rate_per_stream t = 0 then Some Bad_Packet_Rate else None)"

definition validate :: "scenario \<Rightarrow> scenario_error option" where
  "validate s =
     (if list_all c_isspace (sc_name s) \<or> CHR ''/'' \<in> set (sc_name s) \<or> CHR 0x5c \<in> set (sc_name s)
      then Some Bad_Name
      else if sc_duration_ns s = 0 \<or> sc_duration_ns s > 86400 * 10 ^ 9 then Some Bad_Duration
      else if \<not> (BENCH_HEADER_SIZE \<le> unat (tr_packet_size (sc_traffic s)) \<and> tr_packet_size (sc_traffic s) \<le> 250)
           then Some Bad_Packet_Size
      else if \<not> (1 \<le> tr_streams (sc_traffic s) \<and> tr_streams (sc_traffic s) \<le> 16) then Some Bad_Streams
      else if \<not> (1 \<le> tr_tx_window (sc_traffic s) \<and> tr_tx_window (sc_traffic s) \<le> 32) then Some Bad_Tx_Window
      else case validate_radio (sc_radio s) of
          Some e \<Rightarrow> Some e
        | None \<Rightarrow> validate_mode (sc_traffic s))"

section \<open>The configure command\<close>

fun band_name :: "band \<Rightarrow> string" where
  "band_name Ghz2 = ''2.4ghz''"
| "band_name Ghz5 = ''5ghz''"

fun mode_name :: "traffic_mode \<Rightarrow> string" where
  "mode_name Ping = ''ping''"
| "mode_name Stream = ''stream''"
| "mode_name Multi_Stream = ''multi-stream''"
| "mode_name Saturation = ''saturation''"
| "mode_name Latency_Under_Load = ''latency-under-load''"

definition radio_doc :: "radio \<Rightarrow> doc" where
  "radio_doc r = DObj [
     (''band'', DStr (band_name (ra_band r))), (''country'', DStr (ra_country r)),
     (''channel'', DNum (d_int (uint (ra_channel r)))), (''phy_rate'', DStr (ra_phy_rate r)),
     (''tx_power_dbm'', DNum (ra_tx_power_dbm r)), (''power_save'', DBool (ra_power_save r)),
     (''encryption'', DBool (ra_encryption r)),
     (''key'', case ra_key r of None \<Rightarrow> DNull | Some k \<Rightarrow> DStr k)]"

definition traffic_doc :: "traffic \<Rightarrow> doc" where
  "traffic_doc t = DObj [
     (''mode'', DStr (mode_name (tr_mode t))), (''streams'', DNum (d_int (uint (tr_streams t)))),
     (''tx_window'', DNum (d_int (uint (tr_tx_window t)))),
     (''packet_size'', DNum (d_int (uint (tr_packet_size t)))),
     (''packet_rate_per_stream'', DNum (d_int (uint (tr_packet_rate_per_stream t)))),
     (''probe_rate'', DNum (d_int (uint (tr_probe_rate t)))),
     (''background_packet_size'', DNum (d_int (uint (tr_background_packet_size t)))),
     (''background_rate'', DNum (d_int (uint (tr_background_rate t))))]"

text \<open>\<^verbatim>\<open>u64::try_from(s.duration.as_micros()).unwrap_or(u64::MAX)\<close>\<close>

definition duration_us_of :: "scenario \<Rightarrow> nat" where
  "duration_us_of s = (if sc_duration_ns s div 1000 < 2 ^ 64 then sc_duration_ns s div 1000 else 2 ^ 64 - 1)"

text \<open>\<^verbatim>\<open>Device::request("configure", common(role, peer))\<close> with the envelope of \<^verbatim>\<open>Command\<close>.\<close>

definition configure_command :: "u64 \<Rightarrow> u32 \<Rightarrow> string \<Rightarrow> string \<Rightarrow> scenario \<Rightarrow> doc" where
  "configure_command cid run role_name peer s = DObj [
     (''version'', DNum (d_int 2)), (''id'', DNum (d_int (uint cid))), (''cmd'', DStr ''configure''),
     (''run_id'', DNum (d_int (uint run))), (''role'', DStr role_name), (''peer_mac'', DStr peer),
     (''radio'', radio_doc (sc_radio s)), (''traffic'', traffic_doc (sc_traffic s)),
     (''duration_us'', DNum (d_int (int (duration_us_of s))))]"

text \<open>Whether node A initiates, and the roles of the two nodes.\<close>

definition initiator :: "scenario \<Rightarrow> bool" where
  "initiator s \<longleftrightarrow> tr_mode (sc_traffic s) = Ping \<or> tr_mode (sc_traffic s) = Latency_Under_Load"

definition a_role :: "scenario \<Rightarrow> string" where
  "a_role s = (if initiator s then ''ping_initiator'' else ''generator'')"

definition b_role :: "scenario \<Rightarrow> string" where
  "b_role s = (if initiator s then ''echo_responder'' else ''sink'')"

section \<open>What the firmware reads\<close>

text \<open>The configuration the host means: the one the firmware should run with.\<close>

fun mode_of :: "traffic_mode \<Rightarrow> harness_mode" where
  "mode_of Ping = MODE_PING"
| "mode_of Stream = MODE_STREAM"
| "mode_of Multi_Stream = MODE_MULTI_STREAM"
| "mode_of Saturation = MODE_SATURATION"
| "mode_of Latency_Under_Load = MODE_LATENCY_LOAD"

definition meant_config :: "u32 \<Rightarrow> harness_role \<Rightarrow> u8 list \<Rightarrow> u8 list \<Rightarrow> scenario \<Rightarrow> harness_config" where
  "meant_config run rl mac ky s =
     (let r = sc_radio s; t = sc_traffic s in
      \<lparr>run_id = run, role = rl, mode = mode_of (tr_mode t), peer_mac = mac,
       band_5ghz = (ra_band r = Ghz5), country = ra_country r, channel = ra_channel r,
       phy_rate = ra_phy_rate r, tx_power_qdbm = word_of_int (d_trunc (d_times4 (ra_tx_power_dbm r))),
       power_save = ra_power_save r, encryption = ra_encryption r, key = ky,
       duration_us = of_nat (duration_us_of s), packet_size = tr_packet_size t,
       streams = tr_streams t, tx_window = tr_tx_window t,
       rate_per_stream = tr_packet_rate_per_stream t, probe_rate = tr_probe_rate t,
       background_packet_size = tr_background_packet_size t,
       background_rate = tr_background_rate t\<rparr>)"

lemma hexdigit_iff: "is_ascii_hexdigit c \<longleftrightarrow> 0 \<le> hex_value c"
proof -
  have "code (char_of (code c + 32)) = code c + 32" if "c_isupper c"
    using that by (simp add: code_def c_isupper_def)
  then show ?thesis
    by (auto simp: is_ascii_hexdigit_def hex_value_def c_tolower_def c_isupper_def Let_def)
qed

lemma parse_key_pairs_hex:
  "list_all is_ascii_hexdigit k \<Longrightarrow> even (length k) \<Longrightarrow>
     \<exists>bs. parse_key_pairs k = Some bs \<and> 2 * length bs = length k"
proof (induction k rule: parse_key_pairs.induct)
  case (1 a b cs)
  then have h: "0 \<le> hex_value a" "0 \<le> hex_value b" by (simp_all add: hexdigit_iff)
  then obtain bs where "parse_key_pairs cs = Some bs" "2 * length bs = length cs"
    using 1 by (auto simp: not_less)
  then show ?case using 1 by (simp add: hexdigit_iff Let_def)
qed auto

lemma band_name_simps [simp]:
  "band_name b = ''2.4ghz'' \<longleftrightarrow> b = Ghz2" "band_name b = ''5ghz'' \<longleftrightarrow> b = Ghz5"
  by (cases b; simp)+

lemma parse_mode_name [simp]: "parse_mode (mode_name m) = Some (mode_of m)"
  by (cases m) (simp_all add: parse_mode_def)

lemma validate_radioD:
  assumes "validate_radio r = None"
  shows "channel_valid (ra_band r = Ghz5) (ra_channel r)" "country_ok (ra_country r)"
    "tx_power_ok (ra_tx_power_dbm r)" "phy_valid (Some (ra_phy_rate r)) (ra_band r = Ghz5)"
    "ra_encryption r \<Longrightarrow> \<exists>k bs. ra_key r = Some k \<and> parse_key (Some k) = Some bs"
proof -
  note v = assms [unfolded validate_radio_def]
  show "channel_valid (ra_band r = Ghz5) (ra_channel r)"
    using v by (auto simp: channel_valid_def channel_ok_def split: if_splits band.splits)
  have "d_isfinite x" if "d_is_integral (d_times4 x)" for x using that by (cases x) simp_all
  then show "tx_power_ok (ra_tx_power_dbm r)"
    using v by (auto simp: tx_power_ok_def split: if_splits)
  have "length c = 2 \<Longrightarrow> list_all c_isupper c \<Longrightarrow> country_ok c" for c
    by (simp add: country_ok_def list_all_length)
  then show "country_ok (ra_country r)" using v by (auto split: if_splits)
  show "phy_valid (Some (ra_phy_rate r)) (ra_band r = Ghz5)"
    using v by (auto simp: phy_valid_def valid_rate_def split: if_splits)
  show "\<exists>k bs. ra_key r = Some k \<and> parse_key (Some k) = Some bs" if enc: "ra_encryption r"
  proof -
    obtain k where k: "ra_key r = Some k" "length k = 32" "list_all is_ascii_hexdigit k"
      using v enc by (auto split: if_splits option.splits)
    then show ?thesis using parse_key_pairs_hex [of k] by (auto simp: parse_key_def HARNESS_KEY_SIZE_def)
  qed
qed

text \<open>The three stages of the parser on the document of a valid scenario.\<close>

lemma command_items:
  fixes parse cid run rl peer s
  defines "J \<equiv> doc_json parse" and "d \<equiv> configure_command cid run rl peer s"
  shows "object_item J d ''radio'' = Some (radio_doc (sc_radio s))"
    "object_item J d ''traffic'' = Some (traffic_doc (sc_traffic s))"
    "string_item J d ''role'' = Some rl" "string_item J d ''peer_mac'' = Some peer"
    "number_item J d ''run_id'' x = d_int (uint run)"
    "number_item J d ''duration_us'' x = d_int (int (duration_us_of s))"
    "string_item J d ''cmd'' = Some ''configure''" "number_item J d ''id'' x = d_int (uint cid)"
    "number_item J d ''version'' x = d_int 2"
  by (simp_all add: J_def d_def doc_eval configure_command_def radio_doc_def traffic_doc_def)

lemma radio_items:
  fixes parse r
  defines "J \<equiv> doc_json parse"
  shows "string_item J (radio_doc r) ''band'' = Some (band_name (ra_band r))"
    "string_item J (radio_doc r) ''country'' = Some (ra_country r)"
    "number_item J (radio_doc r) ''channel'' x = d_int (uint (ra_channel r))"
    "string_item J (radio_doc r) ''phy_rate'' = Some (ra_phy_rate r)"
    "number_item J (radio_doc r) ''tx_power_dbm'' x = ra_tx_power_dbm r"
    "bool_item J (radio_doc r) ''power_save'' b = ra_power_save r"
    "bool_item J (radio_doc r) ''encryption'' b = ra_encryption r"
    "string_item J (radio_doc r) ''key'' = ra_key r"
  by (simp_all add: J_def doc_eval radio_doc_def split: option.split)

lemma traffic_items:
  fixes parse t
  defines "J \<equiv> doc_json parse"
  shows "string_item J (traffic_doc t) ''mode'' = Some (mode_name (tr_mode t))"
    "number_item J (traffic_doc t) ''streams'' x = d_int (uint (tr_streams t))"
    "number_item J (traffic_doc t) ''tx_window'' x = d_int (uint (tr_tx_window t))"
    "number_item J (traffic_doc t) ''packet_size'' x = d_int (uint (tr_packet_size t))"
    "number_item J (traffic_doc t) ''packet_rate_per_stream'' x = d_int (uint (tr_packet_rate_per_stream t))"
    "number_item J (traffic_doc t) ''probe_rate'' x = d_int (uint (tr_probe_rate t))"
    "number_item J (traffic_doc t) ''background_packet_size'' x = d_int (uint (tr_background_packet_size t))"
    "number_item J (traffic_doc t) ''background_rate'' x = d_int (uint (tr_background_rate t))"
  by (simp_all add: J_def doc_eval traffic_doc_def)

lemma identity_read:
  assumes "run \<noteq> 0" "0 < duration_us_of s" "duration_us_of s \<le> 86400000000" "parse_role rl = Some hr"
    and "length mac = 6"
  shows "parse_identity (doc_json parse) (configure_command cid run rl (format_mac mac) s) =
    Inr (radio_doc (sc_radio s), traffic_doc (sc_traffic s),
      zero_config\<lparr>run_id := run, role := hr, peer_mac := mac, duration_us := of_nat (duration_us_of s)\<rparr>)"
proof -
  have run: "0 < uint run" "uint run \<le> 4294967295"
    using assms(1) unat_u32_le [of run] uint_lt2p [of run] by (simp_all add: word_neq_0_conv word_less_def)
  have "integer_in_range (d_int (uint run)) 1 UINT32_MAX_INT"
    using run by (simp add: integer_in_range_iff UINT32_MAX_INT_def)
  moreover have "integer_in_range (d_int (int (duration_us_of s))) 1 86400000000"
    using assms(2,3) by (simp add: integer_in_range_iff)
  ultimately show ?thesis
    by (simp add: parse_identity_def command_items parse_format_mac [OF assms(5)] assms(4) Let_def)
qed

lemma radio_read:
  assumes v: "validate_radio r = None"
  obtains ky where "parse_radio (doc_json parse) (radio_doc r) cfg = Inr (cfg\<lparr>band_5ghz := (ra_band r = Ghz5),
      channel := ra_channel r, country := ra_country r, phy_rate := ra_phy_rate r,
      tx_power_qdbm := word_of_int (d_trunc (d_times4 (ra_tx_power_dbm r))), power_save := ra_power_save r,
      encryption := ra_encryption r, key := ky\<rparr>)"
    "ra_encryption r \<Longrightarrow> \<exists>k. ra_key r = Some k \<and> parse_key (Some k) = Some ky"
    "\<not> ra_encryption r \<Longrightarrow> ky = key cfg"
proof -
  note d = validate_radioD [OF v]
  have ch: "1 \<le> uint (ra_channel r)" "uint (ra_channel r) \<le> 255"
    using d(1) uint_lt2p [of "ra_channel r"]
    by (auto simp: channel_valid_def word_le_def split: if_splits)
  obtain ky where ky: "ra_encryption r \<Longrightarrow> \<exists>k. ra_key r = Some k \<and> parse_key (Some k) = Some ky"
    "\<not> ra_encryption r \<Longrightarrow> ky = key cfg"
    using d(5) by (cases "ra_encryption r") blast+
  have "parse_radio (doc_json parse) (radio_doc r) cfg = Inr (cfg\<lparr>band_5ghz := (ra_band r = Ghz5),
      channel := ra_channel r, country := ra_country r, phy_rate := ra_phy_rate r,
      tx_power_qdbm := word_of_int (d_trunc (d_times4 (ra_tx_power_dbm r))), power_save := ra_power_save r,
      encryption := ra_encryption r, key := ky\<rparr>)"
    using d(1-4) ch ky phy_valid_length [OF d(4)] country_ok_take [OF d(2)]
    by (cases "ra_band r"; cases "ra_encryption r")
      (auto simp: parse_radio_def radio_items radio_fields_def integer_in_range_iff Let_def)
  with ky show thesis using that by blast
qed

lemma in_range_uint:
  "integer_in_range (d_int (uint (w :: 'a::len word))) (int a) (int b) \<longleftrightarrow> a \<le> unat w \<and> unat w \<le> b"
  by (simp only: integer_in_range_iff d_trunc_int uint_nat of_nat_le_iff simp_thms)

lemma in_range_u32 [simp]: "integer_in_range (d_int (uint (w :: u32))) 0 UINT32_MAX_INT"
  using uint_lt2p [of w] by (simp add: integer_in_range_iff UINT32_MAX_INT_def)

lemma traffic_read:
  assumes mode: "validate_mode t = None"
    and size: "BENCH_HEADER_SIZE \<le> unat (tr_packet_size t)" "unat (tr_packet_size t) \<le> 250"
    and streams: "1 \<le> unat (tr_streams t)" "unat (tr_streams t) \<le> 16"
    and window: "1 \<le> unat (tr_tx_window t)" "unat (tr_tx_window t) \<le> 32"
    and background: "unat (tr_background_packet_size t) \<le> 250"
  shows "parse_traffic (doc_json parse) (traffic_doc t) cfg = Inr (cfg\<lparr>mode := mode_of (tr_mode t),
      packet_size := tr_packet_size t, streams := tr_streams t, tx_window := tr_tx_window t,
      rate_per_stream := tr_packet_rate_per_stream t, probe_rate := tr_probe_rate t,
      background_packet_size := tr_background_packet_size t, background_rate := tr_background_rate t\<rparr>)"
proof -
  have ranges: "integer_in_range (d_int (uint (tr_packet_size t))) (int BENCH_HEADER_SIZE) (int HARNESS_MAX_PACKET_SIZE)"
    "integer_in_range (d_int (uint (tr_streams t))) 1 (int HARNESS_MAX_STREAMS)"
    "integer_in_range (d_int (uint (tr_tx_window t))) 1 (int HARNESS_MAX_TX_WINDOW)"
    using size streams window in_range_uint [of "tr_streams t" 1] in_range_uint [of "tr_tx_window t" 1]
    by (simp_all only: in_range_uint HARNESS_MAX_PACKET_SIZE_def HARNESS_MAX_STREAMS_def
        HARNESS_MAX_TX_WINDOW_def of_nat_1)
  have background_range: "integer_in_range (d_int (uint (tr_background_packet_size t))) 0 (int HARNESS_MAX_PACKET_SIZE)"
    using background in_range_uint [of "tr_background_packet_size t" 0 250]
    by (simp add: HARNESS_MAX_PACKET_SIZE_def)
  show ?thesis
    using mode
    by (cases "tr_mode t")
      (auto simp: parse_traffic_def traffic_items ranges background_range validate_mode_def Let_def
        simp del: mode_name.simps split: if_splits)
qed

lemma validateD:
  assumes "validate s = None"
  shows "0 < sc_duration_ns s" "sc_duration_ns s \<le> 86400 * 10 ^ 9"
    "BENCH_HEADER_SIZE \<le> unat (tr_packet_size (sc_traffic s))" "unat (tr_packet_size (sc_traffic s)) \<le> 250"
    "1 \<le> unat (tr_streams (sc_traffic s))" "unat (tr_streams (sc_traffic s)) \<le> 16"
    "1 \<le> unat (tr_tx_window (sc_traffic s))" "unat (tr_tx_window (sc_traffic s)) \<le> 32"
    "validate_radio (sc_radio s) = None" "validate_mode (sc_traffic s) = None"
  using assms unfolding validate_def
  by (auto simp: word_le_nat_alt not_less split: if_splits option.splits)

text \<open>A scenario the host accepts is one the firmware reads as it is meant.\<close>

lemma scenario_read:
  assumes "validate s = None" "1000 \<le> sc_duration_ns s"
    and "unat (tr_background_packet_size (sc_traffic s)) \<le> 250"
    and "run \<noteq> 0" "length mac = 6" "parse_role rl = Some hr"
  shows "\<exists>ky. parse_config (doc_json parse) (configure_command cid run rl (format_mac mac) s) =
      Inr (meant_config run hr mac ky s) \<and>
    (ra_encryption (sc_radio s) \<longrightarrow> parse_key (ra_key (sc_radio s)) = Some ky)"
proof -
  note v = validateD [OF assms(1)]
  have dur: "0 < duration_us_of s" "duration_us_of s \<le> 86400000000"
    using assms(2) v(1,2) by (auto simp: duration_us_of_def)
  obtain ky where ky: "parse_radio (doc_json parse) (radio_doc (sc_radio s))
      (zero_config\<lparr>run_id := run, role := hr, peer_mac := mac, duration_us := of_nat (duration_us_of s)\<rparr>) =
    Inr (zero_config\<lparr>run_id := run, role := hr, peer_mac := mac, duration_us := of_nat (duration_us_of s),
      band_5ghz := (ra_band (sc_radio s) = Ghz5), channel := ra_channel (sc_radio s),
      country := ra_country (sc_radio s), phy_rate := ra_phy_rate (sc_radio s),
      tx_power_qdbm := word_of_int (d_trunc (d_times4 (ra_tx_power_dbm (sc_radio s)))),
      power_save := ra_power_save (sc_radio s), encryption := ra_encryption (sc_radio s), key := ky\<rparr>)"
    "ra_encryption (sc_radio s) \<Longrightarrow> \<exists>k. ra_key (sc_radio s) = Some k \<and> parse_key (Some k) = Some ky"
    using radio_read [OF v(9)] by metis
  have "parse_config (doc_json parse) (configure_command cid run rl (format_mac mac) s) =
      parse_traffic (doc_json parse) (traffic_doc (sc_traffic s)) (zero_config\<lparr>run_id := run, role := hr,
      peer_mac := mac, duration_us := of_nat (duration_us_of s),
      band_5ghz := (ra_band (sc_radio s) = Ghz5), channel := ra_channel (sc_radio s),
      country := ra_country (sc_radio s), phy_rate := ra_phy_rate (sc_radio s),
      tx_power_qdbm := word_of_int (d_trunc (d_times4 (ra_tx_power_dbm (sc_radio s)))),
      power_save := ra_power_save (sc_radio s), encryption := ra_encryption (sc_radio s), key := ky\<rparr>)"
    by (simp add: parse_config_def identity_read [OF assms(4) dur assms(6,5)] ky(1))
  also have "\<dots> = Inr (meant_config run hr mac ky s)"
    by (simp add: traffic_read [OF v(10,3-8) assms(3)] meant_config_def zero_config_def Let_def)
  finally have "parse_config (doc_json parse) (configure_command cid run rl (format_mac mac) s) =
      Inr (meant_config run hr mac ky s)" .
  with ky(2) show ?thesis by force
qed

text \<open>An encrypted ping scenario.\<close>

definition example_scenario :: scenario where
  "example_scenario = \<lparr>sc_name = ''ping'', sc_duration_ns = 10 ^ 9, sc_settle_ms = 0,
     sc_radio = \<lparr>ra_band = Ghz5, ra_country = ''JP'', ra_channel = 36, ra_phy_rate = ''mcs0'',
       ra_tx_power_dbm = d_int 20, ra_power_save = False, ra_encryption = True,
       ra_key = Some ''00112233445566778899aabbccddeeff''\<rparr>,
     sc_traffic = \<lparr>tr_mode = Ping, tr_streams = 1, tr_tx_window = 1, tr_packet_size = 64,
       tr_packet_rate_per_stream = 100, tr_probe_rate = 0, tr_background_packet_size = 0,
       tr_background_rate = 0\<rparr>\<rparr>"

lemma example_valid: "validate example_scenario = None"
proof -
  have "validate_radio (sc_radio example_scenario) = None"
    by (simp add: validate_radio_def example_scenario_def channel_ok_def valid_rate_def c_isupper_def code_def
        is_ascii_hexdigit_def d_int_def d_less_def)
  then show ?thesis
    by (simp add: validate_def validate_mode_def example_scenario_def c_isspace_def code_def BENCH_HEADER_SIZE_def)
qed

end
