(* ===== verification/Replies.thy ===== *)
theory Replies
  imports System_Inv
begin

text \<open>
  The dialogue with the host: every command line gets exactly one reply, which carries the id of the
  command, and a command that waits gets its reply when its waits are over. \<open>out w\<close> is what the
  console has printed.
\<close>

section \<open>The console\<close>

definition out_laws :: "'w platform \<Rightarrow> ('w \<Rightarrow> json list) \<Rightarrow> bool" where
  "out_laws P out \<longleftrightarrow>
     (\<forall>d w. out (p_send_json P d w) = out w @ [d]) \<and> radio_only P out \<and>
     (\<forall>e t. keeps out (p_queue_send P e t)) \<and> keeps out (p_current_task P) \<and>
     (\<forall>t. keeps out (p_notify_take P t)) \<and> (\<forall>n. keeps out (p_task_create P n)) \<and>
     keeps out (p_tick_count P) \<and> (\<forall>t. keeps_world out (p_delay P t)) \<and> keeps out (p_timer P) \<and>
     keeps out (p_random P) \<and> keeps out (p_read_mac P) \<and> keeps out (p_read_line P) \<and>
     keeps_world out (p_clear_input P)"

lemma ref_out_laws: "out_laws ref_platform rw_out"
  by (simp add: out_laws_def radio_only_def keeps_def keeps_world_def ref_platform_def ref_advance_def
      split: list.split)

lemma out_calls:
  assumes "out_laws P out"
  shows "out (p_send_json P d w) = out w @ [d]" "radio_only P out"
    "out (snd (p_queue_send P e t w)) = out w" "out (snd (p_current_task P w)) = out w"
    "out (snd (p_notify_take P t w)) = out w" "out (snd (p_task_create P n w)) = out w"
    "out (snd (p_tick_count P w)) = out w" "out (p_delay P t w) = out w"
    "out (snd (p_timer P w)) = out w" "out (snd (p_random P w)) = out w"
    "out (snd (p_read_mac P w)) = out w" "out (snd (p_read_line P w)) = out w"
    "out (p_clear_input P w) = out w" "out (snd (p_sem_take P t w)) = out w" "out (p_sem_give P w) = out w"
  using assms by (simp_all add: out_laws_def keeps_def keeps_world_def radio_only_def)

section \<open>Replies\<close>

definition member :: "json \<Rightarrow> string \<Rightarrow> json option" where
  "member doc name = (case doc of JObj kvs \<Rightarrow> map_of kvs name | _ \<Rightarrow> None)"

definition silent :: "('w \<Rightarrow> json list) \<Rightarrow> 'w fw \<Rightarrow> 'w fw \<Rightarrow> bool" where
  "silent out s s' \<longleftrightarrow> out (world s') = out (world s)"

text \<open>What follows the type, the id and the verdict of a response.\<close>

definition reply_body :: "'w platform \<Rightarrow> (string \<times> json) list \<Rightarrow> bool" where
  "reply_body P kvs \<longleftrightarrow> (\<exists>x. kvs = [(''state'', JStr x)]) \<or>
     (\<exists>mac bid. kvs = [(''info'', info_json P mac bid)]) \<or> (\<exists>doc. kvs = [(''result'', doc)]) \<or>
     (\<exists>c m. kvs = [(''code'', JStr c), (''message'', JStr m)])"

lemma reply_body_simps [simp]:
  "reply_body P [(''state'', JStr x)]" "reply_body P [(''info'', info_json P mac bid)]"
  "reply_body P [(''result'', doc)]" "reply_body P [(''code'', JStr c), (''message'', JStr m)]"
  unfolding reply_body_def by blast+

text \<open>\<open>replied P out s cid doc s'\<close>: one document more, a response with the id \<open>cid\<close>.\<close>

definition replied :: "'w platform \<Rightarrow> ('w \<Rightarrow> json list) \<Rightarrow> 'w fw \<Rightarrow> cdouble \<Rightarrow> json \<Rightarrow> 'w fw \<Rightarrow> bool" where
  "replied P out s cid doc s' \<longleftrightarrow> out (world s') = out (world s) @ [doc] \<and>
     (\<exists>ok kvs. doc = JObj (response cid ok @ kvs) \<and> reply_body P kvs)"

lemma silent_replied: "silent out s s1 \<Longrightarrow> replied P out s1 cid doc s' \<Longrightarrow> replied P out s cid doc s'"
  by (simp add: silent_def replied_def)

lemma silent_trans: "silent out s s1 \<Longrightarrow> silent out s1 s' \<Longrightarrow> silent out s s'"
  by (simp add: silent_def)

lemma member_response [simp]:
  "member (JObj (response cid b @ kvs)) name =
     (if name = ''type'' then Some (JStr ''response'') else if name = ''id'' then Some (JNum cid)
      else if name = ''ok'' then Some (JBool b) else map_of kvs name)"
  by (simp add: member_def response_def)

lemma send_replied:
  assumes "out_laws P out"
  shows "reply_body P kvs \<Longrightarrow>
      replied P out s cid (JObj (response cid b @ kvs)) (send_json P (JObj (response cid b @ kvs)) s)"
    "replied P out s cid (error_json cid e m) (send_error P cid e m s)"
proof -
  show "replied P out s cid (JObj (response cid b @ kvs)) (send_json P (JObj (response cid b @ kvs)) s)"
    if "reply_body P kvs" for b kvs
    using that out_calls(1) [OF assms] unfolding replied_def by (auto simp: send_json_def)
  from this [of "[(''code'', JStr e), (''message'', JStr m)]" False]
  show "replied P out s cid (error_json cid e m) (send_error P cid e m s)"
    by (simp add: send_error_def error_json_def)
qed

section \<open>What a reply says\<close>

text \<open>
  A positive reply names the state reached. A refusal names a code; but for the two failures after
  which the device is in the error state, a refused command changed nothing.
\<close>

definition fatal_codes :: "string list" where
  "fatal_codes = [''radio_config'', ''generator_start'']"

definition honest :: "json \<Rightarrow> 'w fw \<Rightarrow> 'w fw \<Rightarrow> bool" where
  "honest doc s s' \<longleftrightarrow>
     (if member doc ''ok'' = Some (JBool True)
      then \<forall>st. member doc ''state'' = Some st \<longrightarrow> st = JStr (harness_state_name (g_state s'))
      else \<exists>c. member doc ''ok'' = Some (JBool False) \<and> member doc ''code'' = Some (JStr c) \<and>
        (if c \<in> set fatal_codes then g_state s' = STATE_ERROR else s' = s\<lparr>world := world s'\<rparr>))"

definition answered :: "'w platform \<Rightarrow> ('w \<Rightarrow> json list) \<Rightarrow> 'w fw \<Rightarrow> cdouble \<Rightarrow> 'w fw \<Rightarrow> bool" where
  "answered P out s cid s' \<longleftrightarrow> (\<exists>doc. replied P out s cid doc s' \<and> honest doc s s')"

lemma answered_replied:
  "answered P out s1 cid s' \<Longrightarrow> silent out s s1 \<Longrightarrow> \<exists>doc. replied P out s cid doc s'"
  unfolding answered_def using silent_replied by blast

lemma send_error_world: "send_error P cid e m s = s\<lparr>world := world (send_error P cid e m s)\<rparr>"
  by (simp add: send_error_def send_json_def exec_def)

lemma send_state_fields [simp]: "g_state (send_state P cid s) = g_state s"
  by (simp add: send_state_def send_json_def)

lemma refusal_answered:
  assumes L: "out_laws P out" and c: "e \<notin> set fatal_codes"
  shows "answered P out s cid (send_error P cid e m s)"
proof -
  have "honest (error_json cid e m) s (send_error P cid e m s)"
    using c send_error_world [of P cid e m s] by (simp add: honest_def error_json_def)
  then show ?thesis using send_replied(2) [OF L] unfolding answered_def by blast
qed

lemma failure_answered:
  assumes L: "out_laws P out" and c: "e \<in> set fatal_codes" and q: "silent out s s1"
  shows "answered P out s cid (send_error P cid e m (s1\<lparr>g_state := STATE_ERROR\<rparr>))"
proof -
  let ?s = "s1\<lparr>g_state := STATE_ERROR\<rparr>"
  have "replied P out s cid (error_json cid e m) (send_error P cid e m ?s)"
    by (rule silent_replied [OF _ send_replied(2) [OF L]]) (use q in \<open>simp add: silent_def\<close>)
  moreover have "g_state (send_error P cid e m ?s) = STATE_ERROR"
    by (simp add: send_error_def send_json_def)
  ultimately show ?thesis
    using c unfolding answered_def by (intro exI [of _ "error_json cid e m"]) (simp add: honest_def error_json_def)
qed

lemma state_answered:
  assumes L: "out_laws P out" and q: "silent out s s1"
  shows "answered P out s cid (send_state P cid s1)"
proof -
  let ?d = "JObj (response cid True @ [(''state'', JStr (harness_state_name (g_state s1)))])"
  have "replied P out s cid ?d (send_state P cid s1)"
    using silent_replied [OF q send_replied(1) [OF L]] by (simp add: send_state_def)
  then show ?thesis unfolding answered_def by (intro exI [of _ ?d]) (simp add: honest_def)
qed

lemma info_answered:
  assumes L: "out_laws P out"
  shows "answered P out s cid (send_info P cid s)"
proof -
  obtain mac bid s1 where s1: "send_info P cid s =
      send_json P (JObj (response cid True @ [(''info'', info_json P mac bid)])) s1" "silent out s s1"
    using out_calls(10,11) [OF L]
    by (simp add: send_info_def boot_id_def silent_def Let_def case_prod_unfold split: if_splits)
  let ?d = "JObj (response cid True @ [(''info'', info_json P mac bid)])"
  have "replied P out s cid ?d (send_info P cid s)"
    using silent_replied [OF s1(2) send_replied(1) [OF L]] by (simp add: s1(1))
  then show ?thesis unfolding answered_def by (intro exI [of _ ?d]) (simp add: honest_def)
qed

section \<open>Commands\<close>

lemma configure_answered:
  assumes L: "out_laws P out" and r: "do_configure P J root cid s = Some s'"
  shows "answered P out s cid s'"
proof -
  have ref: "answered P out s cid (send_error P cid ''invalid_state'' m s)"
    "answered P out s cid (send_error P cid ''invalid_config'' m s)" for m
    by (rule refusal_answered [OF L]; simp add: fatal_codes_def)+
  have q: "silent out s s1" if "radio_configure P cfg (s\<lparr>g_config := cfg\<rparr>) = Some (e, s1)" for cfg e s1
    using radio_configure_keeps [OF that out_calls(2) [OF L]] by (simp add: silent_def)
  show ?thesis
    using r ref failure_answered [OF L, of "''radio_config''"] state_answered [OF L] q
    by (auto simp: do_configure_def fatal_codes_def silent_def split: if_splits sum.splits option.splits)
qed

lemma arm_answered:
  assumes L: "out_laws P out"
  shows "answered P out s cid (do_arm P cid s)"
  using refusal_answered [OF L, of "''invalid_state''"] state_answered [OF L, of s]
  by (simp add: do_arm_def fatal_codes_def silent_def)

lemma start_answered:
  assumes L: "out_laws P out"
  shows "answered P out s cid (do_start P cid s)"
proof -
  let ?s = "(upd_metrics (\<lambda>m. m\<lparr>start_us := fst (p_timer P (world s))\<rparr>) (snd (call (p_timer P) s)))
    \<lparr>g_state := STATE_RUNNING\<rparr>"
  have "silent out s (snd (generator_start P ?s))"
    using out_calls(6,9) [OF L] by (simp add: generator_start_def silent_def Let_def case_prod_unfold)
  then show ?thesis
    using refusal_answered [OF L, of "''invalid_state''"] state_answered [OF L]
      failure_answered [OF L, of "''generator_start''"]
    by (simp add: do_start_def fatal_codes_def Let_def case_prod_unfold)
qed

text \<open>A command that waits has said nothing yet and keeps its id.\<close>

definition pending_job :: "('w \<Rightarrow> json list) \<Rightarrow> 'w fw \<Rightarrow> cdouble \<Rightarrow> job \<times> 'w fw \<Rightarrow> bool" where
  "pending_job out s cid r \<longleftrightarrow> silent out s (snd r) \<and> j_cid (fst r) = cid"

lemma job_begins:
  assumes "out_laws P out"
  shows "pending_job out s cid (begin_job P cid a s)" "pending_job out s cid (do_stop P cid s)"
  using out_calls(7,9) [OF assms]
  by (simp_all add: pending_job_def begin_job_def do_stop_def silent_def Let_def case_prod_unfold)

text \<open>What a command leaves behind: its answer, or a job that owes it.\<close>

definition told :: "'w platform \<Rightarrow> ('w \<Rightarrow> json list) \<Rightarrow> 'w fw \<Rightarrow> cdouble \<Rightarrow> job option \<times> 'w fw \<Rightarrow> bool" where
  "told P out s cid r \<longleftrightarrow> (case fst r of None \<Rightarrow> answered P out s cid (snd r)
     | Some j \<Rightarrow> pending_job out s cid (j, snd r))"

lemma told_simps [simp]:
  "told P out s cid (None, s') = answered P out s cid s'"
  "told P out s cid (Some j, s') = pending_job out s cid (j, s')"
  by (simp_all add: told_def)

lemma dispatch_told:
  assumes L: "out_laws P out" and d: "dispatch P J root s = Some r"
  shows "told P out s (number_item J root ''id'' (d_int 0)) r"
proof -
  have ref: "answered P out s cid (send_error P cid ''bad_request'' m s)"
    "answered P out s cid (send_error P cid ''incompatible_version'' m s)"
    "answered P out s cid (send_error P cid ''run_id_mismatch'' m s)"
    "answered P out s cid (send_error P cid ''invalid_state'' m s)"
    "answered P out s cid (send_error P cid ''unknown_command'' m s)" for cid m
    by (rule refusal_answered [OF L]; simp add: fatal_codes_def)+
  have state: "answered P out s cid (send_state P cid s)" for cid
    by (rule state_answered [OF L]) (simp add: silent_def)
  note e = ref state info_answered [OF L] arm_answered [OF L] start_answered [OF L] job_begins [OF L]
    configure_answered [OF L]
  show ?thesis
    using d unfolding dispatch_def Let_def case_prod_unfold
    by (auto split: option.splits if_splits simp: e)
qed

lemma control_turn_told:
  assumes L: "out_laws P out" and t: "control_turn P J s = Some r"
    and line: "fst (p_read_line P (world s)) = Some text"
  shows "told P out (snd (call (p_read_line P) s)) (case cj_parse J text of None \<Rightarrow> d_int 0
    | Some root \<Rightarrow> number_item J root ''id'' (d_int 0)) r"
proof (cases "cj_parse J text")
  case None
  have "answered P out (snd (call (p_read_line P) s)) (d_int 0)
      (send_error P (d_int 0) ''invalid_json'' ''expected one JSON object per line'' (snd (call (p_read_line P) s)))"
    by (rule refusal_answered [OF L]) (simp add: fatal_codes_def)
  then show ?thesis using t line None by (auto simp: control_turn_def Let_def case_prod_unfold)
next
  case (Some root)
  then have "dispatch P J root (snd (call (p_read_line P) s)) = Some r"
    using t line by (simp add: control_turn_def Let_def case_prod_unfold)
  from dispatch_told [OF L this] show ?thesis using Some by simp
qed

section \<open>Waiting commands\<close>

lemma phase_silent:
  assumes L: "out_laws P out" and r: "phase_step P ph s = (v, s')"
  shows "silent out s s'"
  using r out_calls [OF L] slot_calls_keep(2) [OF out_calls(2) [OF L]]
  by (cases ph) (auto simp: silent_def Let_def case_prod_unfold split: if_splits)

lemma answer_job_answered:
  assumes L: "out_laws P out"
  shows "answered P out s (j_cid j) (answer_job P j s)"
proof (cases "j_answer j")
  case Reply_State
  then show ?thesis using state_answered [OF L, of s] by (simp add: answer_job_def silent_def)
next
  case Reply_Result
  let ?r = "metrics_json (g_config s) (g_metrics s)"
  let ?d = "JObj (response (j_cid j) True @ [(''result'', fst ?r)])"
  have "answer_job P j s = send_json P ?d (s\<lparr>g_metrics := snd ?r\<rparr>)"
    using Reply_Result by (simp add: answer_job_def Let_def case_prod_unfold)
  moreover have "replied P out s (j_cid j) ?d (send_json P ?d (s\<lparr>g_metrics := snd ?r\<rparr>))"
    by (rule silent_replied [OF _ send_replied(1) [OF L]]) (simp_all add: silent_def)
  ultimately show ?thesis unfolding answered_def by (intro exI [of _ ?d]) (simp add: honest_def)
qed

lemma fail_job_answered:
  assumes L: "out_laws P out"
  shows "answered P out s (j_cid j) (fail_job P j s)"
  unfolding fail_job_def by (rule refusal_answered [OF L]) (simp add: fatal_codes_def)

text \<open>A turn of a waiting command says nothing, or is its last and gives the answer.\<close>

lemma job_turn_told:
  assumes L: "out_laws P out" and t: "job_turn P j s = (j', s')"
  shows "case j' of Some x \<Rightarrow> silent out s s' \<and> j_cid x = j_cid j
    | None \<Rightarrow> \<exists>s1. silent out s s1 \<and> answered P out s1 (j_cid j) s'"
proof (cases "j_phases j")
  case Nil
  then have "j' = None" "answered P out s (j_cid j) s'"
    using t answer_job_answered [OF L] by (auto simp: job_turn_def)
  then show ?thesis by (auto simp: silent_def)
next
  case (Cons ph rest)
  obtain v s1 where p: "phase_step P ph s = (v, s1)" by (cases "phase_step P ph s")
  note q = phase_silent [OF L p]
  show ?thesis
  proof (cases v)
    case Failed
    then have "j' = None" "s' = fail_job P j s1" using t Cons p by (auto simp: job_turn_def)
    then show ?thesis using q fail_job_answered [OF L] by auto
  qed (use t Cons p q in \<open>auto simp: job_turn_def\<close>)
qed

section \<open>Every command is answered\<close>

text \<open>
  A command with its waits run to their end: \<^verbatim>\<open>dispatch\<close> of the code, uninterrupted.
\<close>

definition command_run :: "'w platform \<Rightarrow> 'j cjson \<Rightarrow> 'j \<Rightarrow> 'w fw \<Rightarrow> 'w fw option" where
  "command_run P J root s =
     (case dispatch P J root s of
        None \<Rightarrow> None
      | Some (None, s') \<Rightarrow> Some s'
      | Some (Some j, s') \<Rightarrow>
          (case run_phases P (j_phases j) s' of
             None \<Rightarrow> None
           | Some (ok, s'') \<Rightarrow> Some (if ok then answer_job P j s'' else fail_job P j s'')))"

text \<open>
  The tick counter follows the clock with a period, and a reading of a counter or a delay of a
  millisecond takes at most \<open>lag\<close> ticks.
\<close>

definition punctual :: "'w platform \<Rightarrow> ('w \<Rightarrow> u64) \<Rightarrow> nat \<Rightarrow> nat \<Rightarrow> bool" where
  "punctual P clock period lag \<longleftrightarrow> 0 < period \<and>
     (\<forall>w. fst (p_tick_count P w) = of_nat (unat (clock w) div period)) \<and>
     never_back clock (\<lambda>w. snd (p_tick_count P w)) \<and>
     (\<forall>w. unat (clock (snd (p_tick_count P w))) \<le> unat (clock w) + lag * period) \<and>
     (\<forall>w. unat (clock (snd (p_timer P w))) \<le> unat (clock w) + lag * period) \<and>
     (\<forall>w. unat (clock (p_delay P (p_ms_to_ticks P 1) w)) \<le> unat (clock w) + lag * period)"

lemma ref_punctual: "punctual ref_platform rw_clock 1 1001"
proof -
  have t: "unat (rw_clock (ref_advance n w)) \<le> unat (rw_clock w) + n" for n w
    by (simp add: ref_advance_clock)
  have t1: "unat (rw_clock (ref_advance (Suc 0) w)) \<le> unat (rw_clock w) + 1001" for w
    using t [of 1 w] by simp
  show ?thesis
    using ref_advance_le t1 t [of 1001] by (simp add: punctual_def never_back_def ref_platform_def)
qed

lemma sint_past_deadline:
  assumes "m \<le> n" "n < m + 2 ^ 31"
  shows "0 \<le> sint ((of_nat n :: u32) - of_nat m)"
proof -
  have "sint (of_nat d :: u32) = int d" if "d < 2 ^ 31" for d
    using that by (simp add: signed_of_nat signed_take_bit_int_eq_self)
  from this [of "n - m"] have "0 \<le> sint (of_nat (n - m) :: u32)" using assms by linarith
  then show ?thesis using assms(1) by (simp add: of_nat_diff)
qed

text \<open>
  The wait for the generator ends, also across the wrap-around of the 32-bit tick counter: \<open>N\<close> is
  the deadline in ticks since start-up.
\<close>

lemma wait_handle_returns:
  assumes C: "clock_laws P clock" and T: "punctual P clock period lag" "4 * lag \<le> 2 ^ 31"
    and N: "N * period < 2 ^ 64 - 1"
    and now: "unat (clock (world s)) div period < N + 2 ^ 31"
  shows "\<exists>r. wait_handle P (of_nat N) s = Some r"
  using now
proof (induction "N * period - unat (clock (world s))" arbitrary: s rule: less_induct)
  case less
  let ?w = "world s" and ?w1 = "snd (p_tick_count P (world s))"
  let ?w2 = "p_delay P (p_ms_to_ticks P 1) ?w1"
  have p: "0 < period" "fst (p_tick_count P ?w) = of_nat (unat (clock ?w) div period)"
    "clock ?w \<le> clock ?w1" "unat (clock ?w1) \<le> unat (clock ?w) + lag * period"
    "unat (clock ?w2) \<le> unat (clock ?w1) + lag * period"
    using T(1) by (auto simp: punctual_def never_back_def)
  show ?case
  proof (cases "N \<le> unat (clock ?w) div period")
    case True
    have "0 \<le> sint (fst (p_tick_count P ?w) - of_nat N)"
      unfolding p(2) by (rule sint_past_deadline [OF True less.prems])
    then show ?thesis
      by (cases "gen_handle s") (subst wait_handle.simps; simp add: Let_def case_prod_unfold; blast)+
  next
    case False
    then have before: "unat (clock ?w) < N * period" using p(1) by (simp add: not_le div_less_iff_less_mult)
    have step: "unat (clock ?w) < unat (clock ?w2)"
    proof (cases "clock ?w1 < - 1")
      case True
      then have "clock ?w1 < clock ?w2" using C by (simp add: clock_laws_def)
      then show ?thesis using p(3) by (simp add: word_le_nat_alt word_less_nat_alt)
    next
      case False
      then have "clock ?w1 = - 1" using word_n1_ge [of "clock ?w1"] by simp
      moreover have "clock ?w1 \<le> clock ?w2" using C by (simp add: clock_laws_def never_back_def)
      ultimately have "clock ?w2 = - 1" by (intro order_antisym word_n1_ge) simp
      moreover have "unat (- 1 :: u64) = 2 ^ 64 - 1"
        by (simp add: unsigned_minus_1_eq_mask mask_eq_exp_minus_1)
      ultimately have "unat (clock ?w2) = 2 ^ 64 - 1" by (simp only:)
      then show ?thesis using before N by simp
    qed
    have "unat (clock ?w2) < N * period + (lag + lag) * period" using p(4,5) before by (simp add: algebra_simps)
    then have "unat (clock ?w2) div period < N + (lag + lag)"
      using p(1) by (simp add: div_less_iff_less_mult algebra_simps)
    then have "unat (clock ?w2) div period < N + 2 ^ 31" using T(2) by linarith
    moreover have "N * period - unat (clock ?w2) < N * period - unat (clock ?w)"
      using before step by (rule diff_less_mono2 [rotated])
    ultimately have "\<exists>r. wait_handle P (of_nat N) (exec (p_delay P (p_ms_to_ticks P 1))
        (snd (call (p_tick_count P) s))) = Some r"
      using less.hyps [of "exec (p_delay P (p_ms_to_ticks P 1)) (snd (call (p_tick_count P) s))"]
      by simp
    then show ?thesis by (subst wait_handle.simps) (simp add: Let_def case_prod_unfold, blast)
  qed
qed

lemma wait_stopped_returns:
  assumes C: "clock_laws P clock" and T: "punctual P clock period lag" "4 * lag \<le> 2 ^ 31"
    and room: "unat (clock (world s)) + unat (p_ms_to_ticks P (unat ms)) * period < 2 ^ 64 - 1"
  shows "\<exists>r. generator_wait_stopped P ms s = Some r"
proof -
  let ?w = "world s" and ?s1 = "snd (call (p_tick_count P) s)" and ?D = "p_ms_to_ticks P (unat ms)"
  define N where "N = unat (clock ?w) div period + unat ?D"
  have p: "0 < period" "fst (p_tick_count P ?w) = of_nat (unat (clock ?w) div period)"
    "unat (clock (world ?s1)) \<le> unat (clock ?w) + lag * period"
    using T(1) by (auto simp: punctual_def)
  have "N * period \<le> unat (clock ?w) + unat ?D * period"
    by (simp add: N_def algebra_simps)
  then have N: "N * period < 2 ^ 64 - 1" using room by simp
  have "unat (clock (world ?s1)) div period \<le> (unat (clock ?w) + lag * period) div period"
    using p(3) by (rule div_le_mono)
  then have "unat (clock (world ?s1)) div period < N + 2 ^ 31"
    using p(1) T(2) by (simp add: N_def)
  then have "\<exists>r. wait_handle P (of_nat N) ?s1 = Some r"
    by (rule wait_handle_returns [OF C T N])
  moreover have "fst (p_tick_count P ?w) + ?D = of_nat N" by (simp add: N_def p(2))
  ultimately show ?thesis by (simp add: generator_wait_stopped_def Let_def case_prod_unfold)
qed

lemma wait_handle_silent:
  assumes "wait_handle P dl s = Some r" and L: "out_laws P out"
  shows "silent out s (snd r)"
proof -
  have "(\<lambda>((P, dl), s) r. out_laws P out \<longrightarrow> silent out s (snd r)) ((P, dl), s) r"
  proof (rule wait_handle.raw_induct [OF _ assms(1)], goal_cases)
    case (1 wh P dl s r)
    note eq = 1(2) [unfolded Let_def case_prod_unfold, simplified]
    show ?case
    proof (clarsimp)
      assume L: "out_laws P out"
      let ?s2 = "exec (p_delay P (p_ms_to_ticks P 1)) (snd (call (p_tick_count P) s))"
      have q: "silent out s (snd (call (p_tick_count P) s))" "silent out s ?s2"
        using out_calls(7,8) [OF L] by (simp_all add: silent_def)
      consider "r = (True, s)" | "r = (False, snd (call (p_tick_count P) s))" | "wh P dl ?s2 = Some r"
      proof (cases "gen_handle s")
        case True
        then show thesis
          using that eq by (cases "0 \<le> sint (fst (p_tick_count P (world s)) - dl)") simp_all
      qed (use that eq in simp)
      then show "silent out s (snd r)"
      proof cases
        case 3
        then have "silent out ?s2 (snd r)" using 1(1) [of P dl ?s2 r] L by simp
        then show ?thesis by (rule silent_trans [OF q(2)])
      qed (use q(1) in \<open>simp_all add: silent_def\<close>)
    qed
  qed
  then show ?thesis using L by simp
qed

lemma drain_silent:
  assumes L: "out_laws P out"
  shows "silent out s (snd (drain_measurement_events P s))"
proof -
  have "out (world (snd (receiver_flush P t s))) = out (world s)" for t s
    using out_calls [OF L] by (simp add: receiver_flush_def Let_def case_prod_unfold)
  then show ?thesis
    using slot_calls_keep(3) [OF out_calls(2) [OF L]]
    by (simp add: drain_measurement_events_def silent_def Let_def case_prod_unfold)
qed

lemma dispatch_job:
  assumes "out_laws P out" and d: "dispatch P J root s = Some (Some j, s')"
  obtains cid ans s0 where "begin_job P cid ans s0 = (j, s')"
    "world s0 = world s \<or> world s0 = snd (p_timer P (world s))"
  using d
  by (auto simp: dispatch_def do_stop_def Let_def case_prod_unfold
      split: option.splits if_splits)

text \<open>A command returns when the radio can be configured.\<close>

lemma dispatch_returns:
  assumes S: "slot_laws P avail pending" and N: "peer_laws P peers" and ok: "slots_ok avail pending s"
  shows "\<exists>r. dispatch P J root s = Some r"
proof -
  have conf: "do_configure P J root cid s = None \<longleftrightarrow> False" for cid
  proof (cases "parse_config J root")
    case (Inr cfg)
    have "slots_ok avail pending (s\<lparr>g_config := cfg\<rparr>)" using ok by (simp add: slots_ok_def)
    moreover have "unat (tx_window cfg) \<le> HARNESS_MAX_TX_WINDOW"
      using config_okD(2) [OF parse_config_accepted [OF Inr]] .
    ultimately obtain r where "radio_configure P cfg (s\<lparr>g_config := cfg\<rparr>) = Some r"
      using radio_configure_result [OF S N] by blast
    then show ?thesis using Inr by (cases r) (simp add: do_configure_def)
  qed (simp add: do_configure_def)
  then show ?thesis
    by (auto simp: dispatch_def conf Let_def case_prod_unfold split: option.splits)
qed

text \<open>
  Every command is answered: it returns, having printed one document, a response with its id.
\<close>

lemma two_seconds: "unat (2000 :: u32) = 2000"
  by simp

lemma command_replied:
  assumes S: "slot_laws P avail pending" and N: "peer_laws P peers" and L: "out_laws P out"
    and C: "clock_laws P clock" and T: "punctual P clock period lag" "4 * lag \<le> 2 ^ 31"
    and ok: "slots_ok avail pending s"
    and room: "unat (clock (world s)) + (unat (p_ms_to_ticks P 2000) + lag) * period < 2 ^ 64 - 1"
  shows "\<exists>s' doc. command_run P J root s = Some s' \<and>
    replied P out s (number_item J root ''id'' (d_int 0)) doc s'"
proof -
  let ?cid = "number_item J root ''id'' (d_int 0)"
  obtain j s1 where d: "dispatch P J root s = Some (j, s1)"
    using dispatch_returns [OF S N ok] by fast
  note t = dispatch_told [OF L d]
  show ?thesis
  proof (cases j)
    case None
    then show ?thesis using d t by (auto simp: command_run_def answered_def)
  next
    case (Some x)
    obtain ans cid s0 where b: "begin_job P cid ans s0 = (x, s1)"
      "world s0 = world s \<or> world s0 = snd (p_timer P (world s))"
      using dispatch_job [OF L d [unfolded Some]] by metis
    have "unat (clock (world s0)) \<le> unat (clock (world s)) + lag * period"
      using b(2) T(1) by (auto simp: punctual_def)
    then have "unat (clock (world s0)) + unat (p_ms_to_ticks P (unat (2000 :: u32))) * period < 2 ^ 64 - 1"
      using room unfolding two_seconds by (simp add: algebra_simps)
    then obtain stopped s2 where g: "generator_wait_stopped P 2000 s0 = Some (stopped, s2)"
      using wait_stopped_returns [OF C T] by fast
    define r where "r = (if stopped then drain_measurement_events P s2 else (False, s2))"
    have run: "run_phases P (j_phases x) s1 = Some r"
      using job_phases_run [OF g, of cid ans] b(1) by (simp add: r_def)
    have "silent out s0 s2"
    proof -
      have "silent out (snd (call (p_tick_count P) s0)) (snd (stopped, s2))"
        using g by (intro wait_handle_silent [OF _ L]) (simp add: generator_wait_stopped_def Let_def case_prod_unfold)
      then show ?thesis using out_calls(7) [OF L] by (simp add: silent_def)
    qed
    moreover have "silent out s s0" using b(2) out_calls(9) [OF L] by (auto simp: silent_def)
    ultimately have q: "silent out s (snd r)"
      using drain_silent [OF L, of s2] by (auto simp: r_def silent_def)
    define s3 where "s3 = (if fst r then answer_job P x (snd r) else fail_job P x (snd r))"
    have "answered P out (snd r) (j_cid x) s3"
      using answer_job_answered [OF L] fail_job_answered [OF L] by (simp add: s3_def)
    moreover have "j_cid x = ?cid" using t Some by (simp add: pending_job_def)
    ultimately obtain doc where "replied P out s ?cid doc s3"
      using silent_replied [OF q] unfolding answered_def by metis
    moreover have "command_run P J root s = Some s3"
      using d run Some by (simp add: command_run_def s3_def case_prod_unfold)
    ultimately show ?thesis by blast
  qed
qed

end
