(* ===== verification/Host_Device.thy ===== *)
theory Host_Device
  imports Host_Scenario Replies
begin

text \<open>
  The host's end of the dialogue, \<^verbatim>\<open>host/src/device.rs\<close> with the envelope of
  \<^verbatim>\<open>host/src/protocol.rs\<close> and the decisions of \<^verbatim>\<open>host/src/runner.rs\<close>: how a printed document is
  read, which line a request takes for its reply, and what the two nodes are told. A line that
  cannot be parsed (boot messages) is \<open>None\<close>; the end of the list is the deadline. A disconnected
  port is not modelled.
\<close>

section \<open>Reading a document\<close>

text \<open>
  A field of an integer type accepts a number without fraction or exponent, which cJSON prints for
  an integral value below \<open>10 ^ 15\<close>.
\<close>

definition json_uint :: "nat \<Rightarrow> json \<Rightarrow> nat option" where
  "json_uint hi doc = (case doc of
       JNum x \<Rightarrow> if d_is_integral x \<and> 0 \<le> d_trunc x \<and> d_trunc x < 10 ^ 15 \<and> d_trunc x \<le> int hi
                then Some (nat (d_trunc x)) else None
     | _ \<Rightarrow> None)"

definition json_string :: "json \<Rightarrow> string option" where
  "json_string doc = (case doc of JStr x \<Rightarrow> Some x | _ \<Rightarrow> None)"

definition json_bool :: "json \<Rightarrow> bool option" where
  "json_bool doc = (case doc of JBool x \<Rightarrow> Some x | _ \<Rightarrow> None)"

fun json_strings :: "json list \<Rightarrow> string list option" where
  "json_strings [] = Some []"
| "json_strings (d # ds) = (case (json_string d, json_strings ds) of
     (Some x, Some xs) \<Rightarrow> Some (x # xs) | _ \<Rightarrow> None)"

definition json_string_list :: "json \<Rightarrow> string list option" where
  "json_string_list doc = (case doc of JArr ds \<Rightarrow> json_strings ds | _ \<Rightarrow> None)"

text \<open>A required field, and an optional one with its default.\<close>

definition field :: "(json \<Rightarrow> 'a option) \<Rightarrow> json \<Rightarrow> string \<Rightarrow> 'a option" where
  "field f doc name = (case member doc name of None \<Rightarrow> None | Some v \<Rightarrow> f v)"

definition field_or :: "'a \<Rightarrow> (json \<Rightarrow> 'a option) \<Rightarrow> json \<Rightarrow> string \<Rightarrow> 'a option" where
  "field_or d f doc name = (case member doc name of None \<Rightarrow> Some d | Some v \<Rightarrow> f v)"

definition optional :: "(json \<Rightarrow> 'a option) \<Rightarrow> json \<Rightarrow> string \<Rightarrow> 'a option option" where
  "optional f = field_or None (\<lambda>v. map_option Some (f v))"

record capabilities =
  ca_max_packet_size :: nat
  ca_max_streams :: nat
  ca_max_tx_window :: nat
  ca_bands :: "string list"
  ca_phy_rates :: "string list"
  ca_encryption :: bool

record info =
  in_protocol_version :: nat
  in_mac :: string
  in_chip :: string
  in_firmware_version :: string
  in_idf_version :: string
  in_capabilities :: capabilities
  in_boot_id :: nat

record envelope =
  en_kind :: string
  en_id :: "nat option"
  en_ok :: "bool option"
  en_code :: "string option"
  en_message :: "string option"
  en_info :: "info option"
  en_result :: "json option"

definition capabilities_of :: "json \<Rightarrow> capabilities option" where
  "capabilities_of doc = (case (field (json_uint 65535) doc ''max_packet_size'',
       field (json_uint 65535) doc ''max_streams'', field_or 1 (json_uint 65535) doc ''max_tx_window'',
       field json_string_list doc ''bands'', field json_string_list doc ''phy_rates'',
       field json_bool doc ''encryption'') of
     (Some p, Some s, Some w, Some b, Some r, Some e) \<Rightarrow> Some \<lparr>ca_max_packet_size = p,
       ca_max_streams = s, ca_max_tx_window = w, ca_bands = b, ca_phy_rates = r, ca_encryption = e\<rparr>
   | _ \<Rightarrow> None)"

definition info_of :: "json \<Rightarrow> info option" where
  "info_of doc = (case (field (json_uint 255) doc ''protocol_version'', field json_string doc ''mac'',
       field json_string doc ''chip'', field json_string doc ''firmware_version'',
       field json_string doc ''idf_version'', field capabilities_of doc ''capabilities'',
       field_or 0 (json_uint 4294967295) doc ''boot_id'') of
     (Some v, Some m, Some c, Some f, Some i, Some k, Some b) \<Rightarrow> Some \<lparr>in_protocol_version = v,
       in_mac = m, in_chip = c, in_firmware_version = f, in_idf_version = i, in_capabilities = k,
       in_boot_id = b\<rparr>
   | _ \<Rightarrow> None)"

definition envelope_of :: "json \<Rightarrow> envelope option" where
  "envelope_of doc = (case (field json_string doc ''type'', optional (json_uint 18446744073709551615) doc ''id'',
       optional json_bool doc ''ok'', optional json_string doc ''code'',
       optional json_string doc ''message'', optional info_of doc ''info'',
       optional Some doc ''result'') of
     (Some k, Some i, Some b, Some c, Some m, Some n, Some r) \<Rightarrow> Some \<lparr>en_kind = k, en_id = i,
       en_ok = b, en_code = c, en_message = m, en_info = n, en_result = r\<rparr>
   | _ \<Rightarrow> None)"

section \<open>Requests\<close>

datatype request_result = Accepted envelope | Refused string string | Timed_Out

fun await_reply :: "nat \<Rightarrow> envelope option list \<Rightarrow> request_result" where
  "await_reply rid [] = Timed_Out"
| "await_reply rid (None # lines) = await_reply rid lines"
| "await_reply rid (Some env # lines) =
     (if en_kind env = ''event'' then await_reply rid lines
      else if en_id env \<noteq> Some rid then await_reply rid lines
      else if en_ok env = Some False
      then Refused (case en_code env of None \<Rightarrow> ''node_error'' | Some c \<Rightarrow> c)
             (case en_message env of None \<Rightarrow> [] | Some m \<Rightarrow> m)
      else Accepted env)"

text \<open>\<^verbatim>\<open>Device::open_and_probe\<close>, from the outcome of its \<^verbatim>\<open>info\<close> request.\<close>

datatype probe_error = No_Reply | Not_Harness | Incompatible nat

definition probe :: "request_result \<Rightarrow> probe_error + info" where
  "probe res = (case res of
       Accepted env \<Rightarrow> (case en_info env of
           None \<Rightarrow> Inl Not_Harness
         | Some i \<Rightarrow> if in_protocol_version i \<noteq> HARNESS_CONTROL_VERSION
                    then Inl (Incompatible (in_protocol_version i)) else Inr i)
     | _ \<Rightarrow> Inl No_Reply)"

section \<open>The runner\<close>

definition window_supported :: "scenario \<Rightarrow> info \<Rightarrow> bool" where
  "window_supported s i \<longleftrightarrow> \<not> unat (tr_tx_window (sc_traffic s)) > ca_max_tx_window (in_capabilities i)"

definition configure_a :: "u64 \<Rightarrow> u32 \<Rightarrow> scenario \<Rightarrow> info \<Rightarrow> doc" where
  "configure_a cid run s b = configure_command cid run (a_role s) (in_mac b) s"

definition configure_b :: "u64 \<Rightarrow> u32 \<Rightarrow> scenario \<Rightarrow> info \<Rightarrow> doc" where
  "configure_b cid run s a = configure_command cid run (b_role s) (in_mac a) s"

text \<open>\<^verbatim>\<open>unique_run_id\<close> of the time in microseconds.\<close>

unbundle bit_operations_syntax

definition unique_run_id :: "u64 \<Rightarrow> u32" where
  "unique_run_id n = ucast (drop_bit 32 n XOR (n AND 0xffffffff))"

section \<open>The firmware's documents are readable\<close>

lemma json_uint_nat:
  "n < 10 ^ 15 \<Longrightarrow> json_uint hi (j_nat n) = (if n \<le> hi then Some n else None)"
proof -
  assume n: "n < 10 ^ 15"
  then have "d_of_nat n = d_int (int n)" by (simp add: d_of_nat_exact d_int_def)
  then show ?thesis using n by (simp add: json_uint_def j_nat_def)
qed

definition reported_info :: "'w platform \<Rightarrow> u8 list \<Rightarrow> u32 \<Rightarrow> info" where
  "reported_info P mac bid = \<lparr>in_protocol_version = HARNESS_CONTROL_VERSION, in_mac = format_mac mac,
     in_chip = ''ESP32-C5'', in_firmware_version = HARNESS_FW_VERSION, in_idf_version = p_idf_version P,
     in_capabilities = \<lparr>ca_max_packet_size = HARNESS_MAX_PACKET_SIZE, ca_max_streams = HARNESS_MAX_STREAMS,
       ca_max_tx_window = HARNESS_MAX_TX_WINDOW, ca_bands = [''2.4ghz'', ''5ghz''],
       ca_phy_rates = rate_names, ca_encryption = True\<rparr>,
     in_boot_id = unat bid\<rparr>"

lemma json_strings_map: "json_strings (map JStr xs) = Some xs"
  by (induction xs) (simp_all add: json_string_def)

lemma info_read: "info_of (info_json P mac bid) = Some (reported_info P mac bid)"
proof -
  have "unat bid < 10 ^ 15" "unat bid \<le> 4294967295" using unat_u32_le [of bid] by simp_all
  then show ?thesis
    by (simp add: info_of_def info_json_def field_def field_or_def member_def capabilities_of_def
        json_uint_nat json_string_def json_string_list_def json_bool_def json_strings_map
        reported_info_def HARNESS_CONTROL_VERSION_def HARNESS_MAX_PACKET_SIZE_def
        HARNESS_MAX_STREAMS_def HARNESS_MAX_TX_WINDOW_def)
qed

text \<open>The host reads every reply of the firmware, with its id and its verdict.\<close>

definition reply_envelope ::
  "nat \<Rightarrow> bool \<Rightarrow> string option \<Rightarrow> string option \<Rightarrow> info option \<Rightarrow> json option \<Rightarrow> envelope" where
  "reply_envelope n ok c m i r = \<lparr>en_kind = ''response'', en_id = Some n, en_ok = Some ok, en_code = c,
     en_message = m, en_info = i, en_result = r\<rparr>"

lemma envelope_read:
  fixes n :: nat and ok :: bool and kvs :: "(string \<times> json) list"
  defines "D \<equiv> JObj (response (d_int (int n)) ok @ kvs)"
  assumes n: "n < 10 ^ 15" and "optional json_string D ''code'' = Some c"
    and "optional json_string D ''message'' = Some m" and "optional info_of D ''info'' = Some i"
    and "optional Some D ''result'' = Some r"
  shows "envelope_of D = Some (reply_envelope n ok c m i r)"
proof -
  have "json_uint 18446744073709551615 (JNum (d_int (int n))) = Some n"
    using n by (simp add: json_uint_def)
  then have "optional (json_uint 18446744073709551615) D ''id'' = Some (Some n)"
    by (simp add: optional_def field_or_def D_def)
  moreover have "field json_string D ''type'' = Some ''response''" "optional json_bool D ''ok'' = Some (Some ok)"
    by (simp_all add: optional_def field_or_def field_def D_def json_string_def json_bool_def)
  ultimately show ?thesis
    by (simp only: envelope_of_def assms(3-6) reply_envelope_def option.case prod.case)
qed

lemma reply_read:
  assumes b: "reply_body P kvs" and n: "n < 10 ^ 15"
  obtains c m i r where
    "envelope_of (JObj (response (d_int (int n)) ok @ kvs)) = Some (reply_envelope n ok c m i r)"
    "\<And>mac bid. kvs = [(''info'', info_json P mac bid)] \<Longrightarrow> i = Some (reported_info P mac bid)"
proof -
  note e = envelope_read [OF n, where ok = ok and kvs = kvs]
  note defs = optional_def field_or_def json_string_def
  consider (state) x where "kvs = [(''state'', JStr x)]"
    | (info) mac bid where "kvs = [(''info'', info_json P mac bid)]"
    | (result) d where "kvs = [(''result'', d)]"
    | (error) c m where "kvs = [(''code'', JStr c), (''message'', JStr m)]"
    using b unfolding reply_body_def by blast
  then show thesis
  proof cases
    case info
    have inj: "reported_info P m b = reported_info P mac bid" if "info_json P mac bid = info_json P m b" for m b
      using that info_read by (metis option.inject)
    show thesis
      by (rule that [OF e [where c = None and m = None and i = "Some (reported_info P mac bid)" and r = None]])
        (auto simp: defs info info_read dest!: inj)
  next
    case state
    show thesis
      by (rule that [OF e [where c = None and m = None and i = None and r = None]]) (simp_all add: defs state)
  next
    case (result d)
    show thesis
      by (rule that [OF e [where c = None and m = None and i = None and r = "Some d"]])
        (simp_all add: defs result)
  next
    case (error c m)
    show thesis
      by (rule that [OF e [where c = "Some c" and m = "Some m" and i = None and r = None]])
        (simp_all add: defs error)
  qed
qed

text \<open>
  A request takes the reply with its id, whatever lines with other ids, events and log output
  come before it.
\<close>

definition other_line :: "nat \<Rightarrow> envelope option \<Rightarrow> bool" where
  "other_line rid line \<longleftrightarrow>
     (case line of None \<Rightarrow> True | Some env \<Rightarrow> en_kind env = ''event'' \<or> en_id env \<noteq> Some rid)"

lemma await_reply_skips:
  assumes "\<forall>line \<in> set noise. other_line rid line"
  shows "await_reply rid (noise @ lines) = await_reply rid lines"
  using assms
proof (induction noise)
  case (Cons x xs)
  then show ?case by (cases x) (auto simp: other_line_def)
qed simp

definition verdict_of :: "bool \<Rightarrow> request_result \<Rightarrow> bool" where
  "verdict_of ok res = (case res of Accepted _ \<Rightarrow> ok | Refused _ _ \<Rightarrow> \<not> ok | Timed_Out \<Rightarrow> False)"

lemma request_gets_reply:
  assumes "reply_body P kvs" "n < 10 ^ 15" "\<forall>line \<in> set noise. other_line n line"
  shows "verdict_of ok
    (await_reply n (noise @ envelope_of (JObj (response (d_int (int n)) ok @ kvs)) # later))"
proof -
  obtain c m i r where
    "envelope_of (JObj (response (d_int (int n)) ok @ kvs)) = Some (reply_envelope n ok c m i r)"
    by (rule reply_read [OF assms(1,2)]) blast
  then show ?thesis by (simp add: await_reply_skips [OF assms(3)] verdict_of_def reply_envelope_def)
qed

text \<open>The info request of a probe gives the host the address, the limits and the boot id.\<close>

lemma probe_reads_info:
  assumes L: "out_laws P out" and n: "n < 10 ^ 15" and noise: "\<forall>line \<in> set noise. other_line n line"
  shows "\<exists>doc mac bid. out (world (send_info P (d_int (int n)) s)) = out (world s) @ [doc] \<and>
    mac = fst (p_read_mac P (world s)) \<and>
    probe (await_reply n (noise @ [envelope_of doc])) = Inr (reported_info P mac bid)"
proof -
  let ?mac = "fst (p_read_mac P (world s))" and ?s1 = "snd (call (p_read_mac P) s)"
  let ?bid = "fst (boot_id P ?s1)"
  let ?doc = "JObj (response (d_int (int n)) True @ [(''info'', info_json P ?mac ?bid)])"
  have "out (world (send_info P (d_int (int n)) s)) = out (world s) @ [?doc]"
    using out_calls(1,10,11) [OF L]
    by (simp add: send_info_def send_json_def boot_id_def Let_def case_prod_unfold)
  moreover obtain c m r where
    "envelope_of ?doc = Some (reply_envelope n True c m (Some (reported_info P ?mac ?bid)) r)"
    by (rule reply_read [OF reply_body_simps(2) n]) blast
  then have "probe (await_reply n (noise @ [envelope_of ?doc])) = Inr (reported_info P ?mac ?bid)"
    by (simp add: await_reply_skips [OF noise] probe_def reply_envelope_def reported_info_def)
  ultimately show ?thesis by blast
qed

section \<open>Both nodes of a scenario\<close>

lemma role_pair:
  "parse_role (a_role s) = Some (if initiator s then ROLE_PING_INITIATOR else ROLE_GENERATOR)"
  "parse_role (b_role s) = Some (if initiator s then ROLE_ECHO_RESPONDER else ROLE_SINK)"
  by (simp_all add: a_role_def b_role_def parse_role_def)

lemma nodes_configured:
  assumes s: "validate s = None" "1000 \<le> sc_duration_ns s"
    "unat (tr_background_packet_size (sc_traffic s)) \<le> 250" and run: "run \<noteq> 0"
    and mac: "in_mac ia = format_mac mac_a" "in_mac ib = format_mac mac_b" "length mac_a = 6" "length mac_b = 6"
  shows "\<exists>ky ky'. parse_config (doc_json parse) (configure_a cid run s ib) =
        Inr (meant_config run (if initiator s then ROLE_PING_INITIATOR else ROLE_GENERATOR) mac_b ky s) \<and>
      parse_config (doc_json parse) (configure_b cid' run s ia) =
        Inr (meant_config run (if initiator s then ROLE_ECHO_RESPONDER else ROLE_SINK) mac_a ky' s) \<and>
      (ra_encryption (sc_radio s) \<longrightarrow>
        parse_key (ra_key (sc_radio s)) = Some ky \<and> parse_key (ra_key (sc_radio s)) = Some ky')"
proof -
  note r = scenario_read [OF s run, where parse = parse]
  from r [OF mac(4) role_pair(1) [of s], of cid] r [OF mac(3) role_pair(2) [of s], of cid']
  show ?thesis unfolding configure_a_def configure_b_def mac(1,2) by blast
qed

end
