(* ===== verification/Session.thy ===== *)
theory Session
  imports Host_Device Examples
begin

text \<open>
  A run of both nodes, \<^verbatim>\<open>run\<close> of \<^verbatim>\<open>host/src/runner.rs\<close> over \<^verbatim>\<open>Device::request\<close> of
  \<^verbatim>\<open>host/src/device.rs\<close>. The serial line is the parameter \<open>ex\<close>: it sends a command to a port and
  returns the lines read before the deadline. \<open>pause\<close> is \<^verbatim>\<open>thread::sleep\<close>, in nanoseconds. The last
  section puts the firmware model at the other end of both lines.
\<close>

section \<open>Requests to a node\<close>

datatype node = Node_A | Node_B

record 'd link =
  ln_port :: 'd
  ln_next_id :: u64

type_synonym 'd nodes = "node \<Rightarrow> 'd link"

type_synonym 'd line = "doc \<Rightarrow> 'd \<Rightarrow> envelope option list \<times> 'd"

definition command_doc :: "u64 \<Rightarrow> string \<Rightarrow> (string \<times> doc) list \<Rightarrow> doc" where
  "command_doc cid cmd body = DObj ([(''version'', DNum (d_int 2)), (''id'', DNum (d_int (uint cid))),
     (''cmd'', DStr cmd)] @ body)"

definition request :: "'d line \<Rightarrow> string \<Rightarrow> (string \<times> doc) list \<Rightarrow> 'd link \<Rightarrow> request_result \<times> 'd link" where
  "request ex cmd body l =
     (let cid = ln_next_id l;
          l = l\<lparr>ln_next_id := cid + 1\<rparr>;
          (lines, port) = ex (command_doc cid cmd body) (ln_port l)
      in (await_reply (unat cid) lines, l\<lparr>ln_port := port\<rparr>))"

definition ask ::
  "'d line \<Rightarrow> node \<Rightarrow> string \<Rightarrow> (string \<times> doc) list \<Rightarrow> 'd nodes \<Rightarrow> request_result \<times> 'd nodes" where
  "ask ex n cmd body ns = (let (r, l) = request ex cmd body (ns n) in (r, ns(n := l)))"

text \<open>A sequence of requests, given up at the first that is not accepted.\<close>

fun ask_all ::
  "'d line \<Rightarrow> (node \<times> string \<times> (string \<times> doc) list) list \<Rightarrow> 'd nodes \<Rightarrow> (node \<times> string) option \<times> 'd nodes" where
  "ask_all ex [] ns = (None, ns)"
| "ask_all ex ((n, cmd, body) # rs) ns =
     (case ask ex n cmd body ns of
        (Accepted _, ns) \<Rightarrow> ask_all ex rs ns
      | (_, ns) \<Rightarrow> (Some (n, cmd), ns))"

section \<open>The run\<close>

datatype run_error = Window_Unsupported node | Request_Failed node string | Missing_Result node
| Missing_Info node | Reboot_Detected

definition configure_body :: "u32 \<Rightarrow> string \<Rightarrow> string \<Rightarrow> scenario \<Rightarrow> (string \<times> doc) list" where
  "configure_body run role_name peer s = [
     (''run_id'', DNum (d_int (uint run))), (''role'', DStr role_name), (''peer_mac'', DStr peer),
     (''radio'', radio_doc (sc_radio s)), (''traffic'', traffic_doc (sc_traffic s)),
     (''duration_us'', DNum (d_int (int (duration_us_of s))))]"

definition run_body :: "u32 \<Rightarrow> (string \<times> doc) list" where
  "run_body run = [(''run_id'', DNum (d_int (uint run)))]"

definition start_nodes ::
  "'d line \<Rightarrow> (nat \<Rightarrow> 'd nodes \<Rightarrow> 'd nodes) \<Rightarrow> scenario \<Rightarrow> u32 \<Rightarrow> info \<Rightarrow> info \<Rightarrow> 'd nodes \<Rightarrow>
     (node \<times> string) option \<times> 'd nodes" where
  "start_nodes ex pause s run ia ib ns =
     (let (e, ns) = ask_all ex
            [(Node_A, ''configure'', configure_body run (a_role s) (in_mac ib) s),
             (Node_B, ''configure'', configure_body run (b_role s) (in_mac ia) s),
             (Node_B, ''arm'', run_body run), (Node_A, ''arm'', run_body run)] ns
      in if e \<noteq> None then (e, ns)
         else let ns = (if sc_settle_ms s > 0 then pause (unat (sc_settle_ms s) * 10 ^ 6) ns else ns)
              in ask_all ex [(Node_B, ''start'', run_body run), (Node_A, ''start'', run_body run)] ns)"

text \<open>The envelope of an accepted request, or the error it ends the run with.\<close>

definition demand ::
  "'d line \<Rightarrow> node \<Rightarrow> string \<Rightarrow> (string \<times> doc) list \<Rightarrow> (envelope \<Rightarrow> 'a option) \<Rightarrow> run_error \<Rightarrow> 'd nodes \<Rightarrow>
     (run_error + 'a) \<times> 'd nodes" where
  "demand ex n cmd body get missing ns =
     (case ask ex n cmd body ns of
        (Accepted env, ns) \<Rightarrow> (case get env of None \<Rightarrow> (Inl missing, ns) | Some x \<Rightarrow> (Inr x, ns))
      | (_, ns) \<Rightarrow> (Inl (Request_Failed n cmd), ns))"

definition collect_nodes ::
  "'d line \<Rightarrow> u32 \<Rightarrow> info \<Rightarrow> info \<Rightarrow> 'd nodes \<Rightarrow> (run_error + json \<times> json) \<times> 'd nodes" where
  "collect_nodes ex run ia ib ns =
     (let ns = snd (ask ex Node_A ''stop'' (run_body run) ns);
          ns = snd (ask ex Node_B ''stop'' (run_body run) ns)
      in case demand ex Node_A ''result'' (run_body run) en_result (Missing_Result Node_A) ns of
           (Inl e, ns) \<Rightarrow> (Inl e, ns)
         | (Inr ar, ns) \<Rightarrow>
      (case demand ex Node_B ''result'' (run_body run) en_result (Missing_Result Node_B) ns of
           (Inl e, ns) \<Rightarrow> (Inl e, ns)
         | (Inr br, ns) \<Rightarrow>
      (case demand ex Node_A ''info'' [] en_info (Missing_Info Node_A) ns of
           (Inl e, ns) \<Rightarrow> (Inl e, ns)
         | (Inr ai, ns) \<Rightarrow>
      (case demand ex Node_B ''info'' [] en_info (Missing_Info Node_B) ns of
           (Inl e, ns) \<Rightarrow> (Inl e, ns)
         | (Inr bi, ns) \<Rightarrow>
             if in_boot_id ai \<noteq> in_boot_id ia \<or> in_boot_id bi \<noteq> in_boot_id ib then (Inl Reboot_Detected, ns)
             else (Inr (ar, br), ns)))))"

definition run_nodes ::
  "'d line \<Rightarrow> (nat \<Rightarrow> 'd nodes \<Rightarrow> 'd nodes) \<Rightarrow> scenario \<Rightarrow> u32 \<Rightarrow> info \<Rightarrow> info \<Rightarrow> 'd nodes \<Rightarrow>
     (run_error + json \<times> json) \<times> 'd nodes" where
  "run_nodes ex pause s run ia ib ns =
     (if \<not> window_supported s ia then (Inl (Window_Unsupported Node_A), ns)
      else if \<not> window_supported s ib then (Inl (Window_Unsupported Node_B), ns)
      else case start_nodes ex pause s run ia ib ns of
          (Some (n, cmd), ns) \<Rightarrow> (Inl (Request_Failed n cmd), ns)
        | (None, ns) \<Rightarrow> collect_nodes ex run ia ib (pause (sc_duration_ns s + 20 * 10 ^ 6) ns))"

section \<open>The firmware at the other end\<close>

text \<open>The line to a node: other lines come first, then what the command printed.\<close>

definition serve ::
  "'w platform \<Rightarrow> (string \<Rightarrow> doc option) \<Rightarrow> ('w \<Rightarrow> json list) \<Rightarrow> envelope option list \<Rightarrow> 'w fw line" where
  "serve P parse out noise root d =
     (case command_run P (doc_json parse) root d of
        None \<Rightarrow> (noise, d)
      | Some d' \<Rightarrow> (noise @ map envelope_of (drop (length (out (world d))) (out (world d'))), d'))"

text \<open>Lines that no request takes for its reply.\<close>

definition quiet :: "envelope option list \<Rightarrow> bool" where
  "quiet noise \<longleftrightarrow> (\<forall>line \<in> set noise. \<forall>n. other_line n line)"

lemma command_items_of:
  fixes parse cid cmd body
  defines "J \<equiv> doc_json parse" and "d \<equiv> command_doc cid cmd body"
  shows "string_item J d ''cmd'' = Some cmd" "number_item J d ''id'' x = d_int (uint cid)"
    "number_item J d ''version'' x = d_int 2"
  by (simp_all add: J_def d_def doc_eval command_doc_def)

lemma configure_doc:
  "command_doc cid ''configure'' (configure_body run rl peer s) = configure_command cid run rl peer s"
  by (simp add: command_doc_def configure_body_def configure_command_def)

text \<open>The command is accepted and leaves the device as \<open>d'\<close>.\<close>

definition accepts ::
  "'w platform \<Rightarrow> (string \<Rightarrow> doc option) \<Rightarrow> ('w \<Rightarrow> json list) \<Rightarrow> doc \<Rightarrow> u64 \<Rightarrow> 'w fw \<Rightarrow> 'w fw \<Rightarrow> bool" where
  "accepts P parse out root cid d d' \<longleftrightarrow> command_run P (doc_json parse) root d = Some d' \<and>
     out (world d') = out (world d) @
       [JObj (response (d_int (uint cid)) True @ [(''state'', JStr (harness_state_name (g_state d')))])]"

lemma ask_served:
  assumes a: "accepts P parse out (command_doc c cmd body) c d d'"
    and l: "ns n = \<lparr>ln_port = d, ln_next_id = c\<rparr>" and c: "unat c < 10 ^ 15" and q: "quiet noise"
  shows "\<exists>env. ask (serve P parse out noise) n cmd body ns =
    (Accepted env, ns(n := \<lparr>ln_port = d', ln_next_id = c + 1\<rparr>))"
proof -
  let ?kvs = "[(''state'', JStr (harness_state_name (g_state d')))]"
  let ?doc = "JObj (response (d_int (uint c)) True @ ?kvs)"
  have s: "serve P parse out noise (command_doc c cmd body) d = (noise @ [envelope_of ?doc], d')"
    using a by (simp add: serve_def accepts_def)
  have noise: "\<forall>line \<in> set noise. other_line (unat c) line" using q by (simp add: quiet_def)
  have "verdict_of True (await_reply (unat c) (noise @ [envelope_of ?doc]))"
    using request_gets_reply [OF reply_body_simps(1) c noise, of True _ "[]"] by simp
  then obtain env where "await_reply (unat c) (noise @ [envelope_of ?doc]) = Accepted env"
    by (auto simp: verdict_of_def split: request_result.splits)
  then show ?thesis by (simp add: ask_def request_def s l Let_def)
qed

lemma ask_all_served:
  assumes "accepts P parse out (command_doc c cmd body) c d d'"
    and "ns n = \<lparr>ln_port = d, ln_next_id = c\<rparr>" and "unat c < 10 ^ 15" and "quiet noise"
  shows "ask_all (serve P parse out noise) ((n, cmd, body) # rs) ns =
    ask_all (serve P parse out noise) rs (ns(n := \<lparr>ln_port = d', ln_next_id = c + 1\<rparr>))"
proof -
  obtain env where "ask (serve P parse out noise) n cmd body ns =
    (Accepted env, ns(n := \<lparr>ln_port = d', ln_next_id = c + 1\<rparr>))"
    using ask_served [of P parse out c cmd body d d' ns n noise] assms by blast
  then show ?thesis by simp
qed

section \<open>The commands that start a run\<close>

lemma run_checked: "\<not> run_mismatch (d_int (uint run)) run"
  by (simp add: run_mismatch_def d_eq_int_iff)

lemma cid_ok:
  assumes "1 \<le> unat cid" "unat cid < 10 ^ 15"
  shows "integer_in_range (d_int (uint cid)) 1 9007199254740991"
proof -
  have "unat cid < 1000000000000000" using assms(2) by simp
  then have "1 \<le> uint cid \<and> uint cid \<le> 9007199254740991" using assms(1) uint_nat [of cid] by linarith
  then show ?thesis by (simp only: integer_in_range_iff d_trunc_int)
qed

lemma configure_accepted:
  assumes L: "out_laws P out" and c: "parse_config (doc_json parse) root = Inr cfg"
    and root: "root = command_doc cid ''configure'' body" and cid: "1 \<le> unat cid" "unat cid < 10 ^ 15"
    and g: "g_state d \<noteq> STATE_RUNNING" "g_state d \<noteq> STATE_ARMED"
    and r: "radio_configure P cfg (d\<lparr>g_config := cfg\<rparr>) = Some (ESP_OK, d1)"
  shows "\<exists>d'. accepts P parse out root cid d d' \<and> g_state d' = STATE_CONFIGURED \<and> g_config d' = cfg \<and>
    gen_handle d' = gen_handle d"
proof -
  let ?d = "d1\<lparr>g_metrics := metrics_reset, g_state := STATE_CONFIGURED\<rparr>"
  have f: "g_config d1 = cfg" "gen_handle d1 = gen_handle d" "out (world d1) = out (world d)"
    using radio_configure_frame [OF r] radio_configure_keeps [OF r out_calls(2) [OF L]] by simp_all
  have "command_run P (doc_json parse) root d = Some (send_state P (d_int (uint cid)) ?d)"
    using g c r cid_ok [OF cid]
    by (simp add: command_run_def dispatch_def root command_items_of do_configure_def d_eq_int_iff
        HARNESS_CONTROL_VERSION_def)
  then show ?thesis
    using f out_calls(1) [OF L] by (simp add: accepts_def send_state_def send_json_def)
qed

lemma arm_accepted:
  assumes L: "out_laws P out" and root: "root = command_doc cid ''arm'' (run_body (run_id (g_config d)))"
    and cid: "1 \<le> unat cid" "unat cid < 10 ^ 15" and g: "g_state d = STATE_CONFIGURED"
  shows "\<exists>d'. accepts P parse out root cid d d' \<and> g_state d' = STATE_ARMED \<and> g_config d' = g_config d \<and>
    gen_handle d' = gen_handle d"
proof -
  let ?d = "d\<lparr>g_metrics := metrics_reset, g_state := STATE_ARMED\<rparr>"
  have n: "number_item (doc_json parse) root ''run_id'' x = d_int (uint (run_id (g_config d)))" for x
    by (simp add: root command_doc_def run_body_def doc_eval)
  have "command_run P (doc_json parse) root d = Some (send_state P (d_int (uint cid)) ?d)"
    using g cid_ok [OF cid] run_checked n
    by (simp add: command_run_def dispatch_def root command_items_of do_arm_def d_eq_int_iff
        HARNESS_CONTROL_VERSION_def)
  then show ?thesis
    using out_calls(1) [OF L] by (simp add: accepts_def send_state_def send_json_def)
qed

definition sends :: "harness_role \<Rightarrow> bool" where
  "sends r \<longleftrightarrow> r = ROLE_GENERATOR \<or> r = ROLE_PING_INITIATOR"

lemma start_accepted:
  assumes L: "out_laws P out" and root: "root = command_doc cid ''start'' (run_body (run_id (g_config d)))"
    and cid: "1 \<le> unat cid" "unat cid < 10 ^ 15" and g: "g_state d = STATE_ARMED" "\<not> gen_handle d"
    and t: "\<forall>w. fst (p_task_create P ''bench_gen'' w)"
  shows "\<exists>d'. accepts P parse out root cid d d' \<and> g_state d' = STATE_RUNNING \<and> g_config d' = g_config d \<and>
    gen_handle d' = sends (role (g_config d))"
proof -
  have n: "number_item (doc_json parse) root ''run_id'' x = d_int (uint (run_id (g_config d)))" for x
    by (simp add: root command_doc_def run_body_def doc_eval)
  have "command_run P (doc_json parse) root d = Some (do_start P (d_int (uint cid)) d)"
    using cid_ok [OF cid] run_checked n
    by (simp add: command_run_def dispatch_def root command_items_of d_eq_int_iff HARNESS_CONTROL_VERSION_def)
  then show ?thesis
    using g t out_calls(1,6,9) [OF L]
    by (auto simp: accepts_def do_start_def generator_start_def send_state_def send_json_def sends_def
        Let_def case_prod_unfold)
qed

section \<open>Both nodes start\<close>

text \<open>A node that can take a run: idle, and the radio accepts the configuration.\<close>

definition fit_node :: "'w platform \<Rightarrow> harness_config \<Rightarrow> 'w fw \<Rightarrow> bool" where
  "fit_node P cfg d \<longleftrightarrow> g_state d \<notin> {STATE_RUNNING, STATE_ARMED} \<and> \<not> gen_handle d \<and>
     (\<exists>d1. radio_configure P cfg (d\<lparr>g_config := cfg\<rparr>) = Some (ESP_OK, d1))"

text \<open>While the host sleeps an armed node stays armed, with its configuration and no generator.\<close>

definition armed_stays :: "(nat \<Rightarrow> 'w fw nodes \<Rightarrow> 'w fw nodes) \<Rightarrow> bool" where
  "armed_stays pause \<longleftrightarrow> (\<forall>k ns n. g_state (ln_port (ns n)) = STATE_ARMED \<longrightarrow>
     ln_next_id (pause k ns n) = ln_next_id (ns n) \<and> g_state (ln_port (pause k ns n)) = STATE_ARMED \<and>
     g_config (ln_port (pause k ns n)) = g_config (ln_port (ns n)) \<and>
     gen_handle (ln_port (pause k ns n)) = gen_handle (ln_port (ns n)))"

definition role_of :: "scenario \<Rightarrow> node \<Rightarrow> harness_role" where
  "role_of s n = (case n of
       Node_A \<Rightarrow> if initiator s then ROLE_PING_INITIATOR else ROLE_GENERATOR
     | Node_B \<Rightarrow> if initiator s then ROLE_ECHO_RESPONDER else ROLE_SINK)"

definition peer_of :: "node \<Rightarrow> node" where
  "peer_of n = (case n of Node_A \<Rightarrow> Node_B | Node_B \<Rightarrow> Node_A)"

definition role_name :: "scenario \<Rightarrow> node \<Rightarrow> string" where
  "role_name s n = (case n of Node_A \<Rightarrow> a_role s | Node_B \<Rightarrow> b_role s)"

lemma role_name_parsed: "parse_role (role_name s n) = Some (role_of s n)"
  by (cases n) (simp_all add: role_name_def role_of_def role_pair)

lemma next_ids:
  assumes "1 \<le> unat c" "unat c + 3 < 10 ^ 15"
  shows "1 \<le> unat (c + 1)" "unat (c + 1) < 10 ^ 15" "1 \<le> unat (c + 1 + 1)" "unat (c + 1 + 1) < 10 ^ 15"
    "unat (c :: u64) < 10 ^ 15"
proof -
  have n: "unat (c + 1) = unat c + 1" "unat (c + 1 + 1) = unat c + 2"
    using assms(2) by (simp_all add: unat_word_ariths)
  show "1 \<le> unat (c + 1)" "unat (c + 1) < 10 ^ 15" "1 \<le> unat (c + 1 + 1)" "unat (c + 1 + 1) < 10 ^ 15"
    "unat c < 10 ^ 15"
    using assms by (simp_all only: n)
qed

text \<open>What one node goes through: configured, armed, and after the pause started.\<close>

definition meant :: "scenario \<Rightarrow> u32 \<Rightarrow> (node \<Rightarrow> u8 list) \<Rightarrow> node \<Rightarrow> harness_config \<Rightarrow> bool" where
  "meant s run macs n cfg \<longleftrightarrow> (\<exists>ky. cfg = meant_config run (role_of s n) (macs (peer_of n)) ky s \<and>
     (ra_encryption (sc_radio s) \<longrightarrow> parse_key (ra_key (sc_radio s)) = Some ky))"

lemma meant_fields: "meant s run macs n cfg \<Longrightarrow> run_id cfg = run \<and> role cfg = role_of s n"
  by (auto simp: meant_def meant_config_def Let_def)

lemma node_armed:
  fixes P :: "'w platform" and macs :: "node \<Rightarrow> u8 list"
  assumes L: "out_laws P out" and v: "validate s = None" "1000 \<le> sc_duration_ns s"
      "unat (tr_background_packet_size (sc_traffic s)) \<le> 250" and run: "run \<noteq> 0"
    and mac: "length (macs (peer_of n)) = 6"
    and fit: "\<And>cfg. meant s run macs n cfg \<Longrightarrow> fit_node P cfg d"
    and cid: "1 \<le> unat c" "unat c + 3 < 10 ^ 15"
  obtains d1 d2 where
    "accepts P parse out (command_doc c ''configure'' (configure_body run (role_name s n) (format_mac (macs (peer_of n))) s)) c d d1"
    "accepts P parse out (command_doc (c + 1) ''arm'' (run_body run)) (c + 1) d1 d2"
    "g_state d2 = STATE_ARMED" "meant s run macs n (g_config d2)" "\<not> gen_handle d2"
proof -
  let ?root = "command_doc c ''configure'' (configure_body run (role_name s n) (format_mac (macs (peer_of n))) s)"
  obtain cfg where cfg: "parse_config (doc_json parse) ?root = Inr cfg" "meant s run macs n cfg"
    using scenario_read [OF v run mac role_name_parsed, of parse c] unfolding configure_doc meant_def by blast
  obtain d1 where r: "radio_configure P cfg (d\<lparr>g_config := cfg\<rparr>) = Some (ESP_OK, d1)"
    and g: "g_state d \<noteq> STATE_RUNNING" "g_state d \<noteq> STATE_ARMED" "\<not> gen_handle d"
    using fit [OF cfg(2)] by (auto simp: fit_node_def)
  obtain d1 where d1: "accepts P parse out ?root c d d1" "g_state d1 = STATE_CONFIGURED" "g_config d1 = cfg"
    "\<not> gen_handle d1"
    using configure_accepted [OF L cfg(1) refl cid(1) next_ids(5) [OF cid] g(1,2) r] g(3) by blast
  then show ?thesis
    using arm_accepted [OF L _ next_ids(1,2) [OF cid] d1(2), of _ parse] meant_fields [OF cfg(2)] cfg(2) that
    by (metis d1(3))
qed

lemma nodes_start:
  fixes P :: "'w platform" and ns :: "'w fw nodes" and macs :: "node \<Rightarrow> u8 list"
  assumes L: "out_laws P out" and v: "validate s = None" "1000 \<le> sc_duration_ns s"
      "unat (tr_background_packet_size (sc_traffic s)) \<le> 250" and run: "run \<noteq> 0"
    and mac: "in_mac ia = format_mac (macs Node_A)" "in_mac ib = format_mac (macs Node_B)" "\<And>n. length (macs n) = 6"
    and fit: "\<And>n cfg. meant s run macs n cfg \<Longrightarrow> fit_node P cfg (ln_port (ns n))"
    and cid: "\<And>n. 1 \<le> unat (ln_next_id (ns n))" "\<And>n. unat (ln_next_id (ns n)) + 3 < 10 ^ 15"
    and task: "\<forall>w. fst (p_task_create P ''bench_gen'' w)" and q: "quiet noise" and p: "armed_stays pause"
  obtains ns' where "start_nodes (serve P parse out noise) pause s run ia ib ns = (None, ns')"
    "\<And>n. g_state (ln_port (ns' n)) = STATE_RUNNING \<and> meant s run macs n (g_config (ln_port (ns' n))) \<and>
      (gen_handle (ln_port (ns' n)) \<longleftrightarrow> n = Node_A)"
proof -
  define c where "c n = ln_next_id (ns n)" for n
  define d where "d n = ln_port (ns n)" for n
  let ?ex = "serve P parse out noise"
  let ?conf = "\<lambda>n. configure_body run (role_name s n) (format_mac (macs (peer_of n))) s"
  have cid': "1 \<le> unat (c n)" "unat (c n) + 3 < 10 ^ 15" for n using cid by (simp_all add: c_def)
  note ids = next_ids [OF cid']
  have "\<exists>d1 d2. accepts P parse out (command_doc (c n) ''configure'' (?conf n)) (c n) (d n) d1 \<and>
      accepts P parse out (command_doc (c n + 1) ''arm'' (run_body run)) (c n + 1) d1 d2 \<and>
      g_state d2 = STATE_ARMED \<and> meant s run macs n (g_config d2) \<and> \<not> gen_handle d2" for n
    by (rule node_armed [where n = n and macs = macs and d = "d n" and parse = parse, OF L v run mac(3) _ cid'])
      (use fit in \<open>auto simp: d_def\<close>)
  then obtain d1 d2 where conf: "\<And>n. accepts P parse out (command_doc (c n) ''configure'' (?conf n)) (c n) (d n) (d1 n)"
    and arm: "\<And>n. accepts P parse out (command_doc (c n + 1) ''arm'' (run_body run)) (c n + 1) (d1 n) (d2 n)"
    and armed: "\<And>n. g_state (d2 n) = STATE_ARMED" "\<And>n. meant s run macs n (g_config (d2 n))"
      "\<And>n. \<not> gen_handle (d2 n)"
    by metis
  define ns1 where "ns1 n = \<lparr>ln_port = d2 n, ln_next_id = c n + 1 + 1\<rparr>" for n
  have ns: "ns n = \<lparr>ln_port = d n, ln_next_id = c n\<rparr>" for n by (simp add: c_def d_def)
  let ?l = "\<lambda>n. \<lparr>ln_port = d1 n, ln_next_id = c n + 1\<rparr>"
  let ?nsc = "ns(Node_A := ?l Node_A, Node_B := ?l Node_B)"
  have steps:
    "ask_all ?ex ((Node_A, ''configure'', ?conf Node_A) # rs) ns = ask_all ?ex rs (ns(Node_A := ?l Node_A))"
    "ask_all ?ex ((Node_B, ''configure'', ?conf Node_B) # rs) (ns(Node_A := ?l Node_A)) = ask_all ?ex rs ?nsc"
    "ask_all ?ex ((Node_B, ''arm'', run_body run) # rs) ?nsc = ask_all ?ex rs (?nsc(Node_B := ns1 Node_B))"
    "ask_all ?ex ((Node_A, ''arm'', run_body run) # rs) (?nsc(Node_B := ns1 Node_B)) =
      ask_all ?ex rs (?nsc(Node_B := ns1 Node_B, Node_A := ns1 Node_A))" for rs
    unfolding ns1_def
    by (rule ask_all_served [OF conf ns ids(5) q], rule ask_all_served [OF conf _ ids(5) q],
        simp add: ns, rule ask_all_served [OF arm _ ids(2) q], simp,
        rule ask_all_served [OF arm _ ids(2) q], simp)
  have upd: "?nsc(Node_B := ns1 Node_B, Node_A := ns1 Node_A) = ns1"
  proof
    fix n
    show "(?nsc(Node_B := ns1 Node_B, Node_A := ns1 Node_A)) n = ns1 n" by (cases n) simp_all
  qed
  have first: "ask_all ?ex
        [(Node_A, ''configure'', ?conf Node_A), (Node_B, ''configure'', ?conf Node_B),
         (Node_B, ''arm'', run_body run), (Node_A, ''arm'', run_body run)] ns = (None, ns1)"
    by (simp only: steps upd ask_all.simps(1))
  define ns2 where "ns2 = (if sc_settle_ms s > 0 then pause (unat (sc_settle_ms s) * 10 ^ 6) ns1 else ns1)"
  define d3 where "d3 n = ln_port (ns2 n)" for n
  have d3: "ns2 n = \<lparr>ln_port = d3 n, ln_next_id = c n + 1 + 1\<rparr>" "g_state (d3 n) = STATE_ARMED"
    "meant s run macs n (g_config (d3 n))" "\<not> gen_handle (d3 n)" for n
    using p armed [of n] unfolding armed_stays_def d3_def ns2_def by (auto simp: ns1_def)
  have "\<exists>d4. accepts P parse out (command_doc (c n + 1 + 1) ''start'' (run_body run)) (c n + 1 + 1) (d3 n) d4 \<and>
      g_state d4 = STATE_RUNNING \<and> g_config d4 = g_config (d3 n) \<and> gen_handle d4 = sends (role_of s n)" for n
    using start_accepted [where d = "d3 n" and cid = "c n + 1 + 1" and parse = parse, OF L refl ids(3,4) d3(2,4) task]
      meant_fields [OF d3(3) [of n]] by simp
  then obtain d4 where start:
      "\<And>n. accepts P parse out (command_doc (c n + 1 + 1) ''start'' (run_body run)) (c n + 1 + 1) (d3 n) (d4 n)"
    and run4: "\<And>n. g_state (d4 n) = STATE_RUNNING" "\<And>n. g_config (d4 n) = g_config (d3 n)"
      "\<And>n. gen_handle (d4 n) = sends (role_of s n)"
    by metis
  let ?l = "\<lambda>n. \<lparr>ln_port = d4 n, ln_next_id = c n + 1 + 1 + 1\<rparr>"
  have last_steps:
    "ask_all ?ex ((Node_B, ''start'', run_body run) # rs) ns2 = ask_all ?ex rs (ns2(Node_B := ?l Node_B))"
    "ask_all ?ex ((Node_A, ''start'', run_body run) # rs) (ns2(Node_B := ?l Node_B)) =
      ask_all ?ex rs (ns2(Node_B := ?l Node_B, Node_A := ?l Node_A))" for rs
    by (rule ask_all_served [OF start _ ids(4) q], simp add: d3(1),
        rule ask_all_served [OF start _ ids(4) q], simp add: d3(1))
  have "ask_all ?ex [(Node_B, ''start'', run_body run), (Node_A, ''start'', run_body run)] ns2 =
      (None, ns2(Node_B := ?l Node_B, Node_A := ?l Node_A))"
    by (simp only: last_steps ask_all.simps(1))
  then have "start_nodes ?ex pause s run ia ib ns = (None, ns2(Node_B := ?l Node_B, Node_A := ?l Node_A))"
    using first by (simp add: start_nodes_def ns2_def mac role_name_def peer_of_def del: ask_all.simps(2))
  moreover have "sends (role_of s n) \<longleftrightarrow> n = Node_A" for n
    by (cases n) (simp_all add: sends_def role_of_def)
  ultimately show ?thesis
    using run4 d3(3) by (elim that) (auto split: if_splits; metis node.exhaust)
qed

text \<open>The radio of the reference platform accepts the example scenario.\<close>

lemma example_radio:
  "\<exists>t. radio_configure ref_platform (meant_config run rl mac ky example_scenario)
     (up_fw\<lparr>g_config := meant_config run rl mac ky example_scenario\<rparr>) = Some (ESP_OK, t)"
  by (simp add: radio_configure_def radio_wait_idle_def resize_window_def configure_driver_def
      make_rate_config_def meant_config_def example_scenario_def configure_requests_def call_def
      up_fw_def boot_fw_def up_world_def ref_world0_def HARNESS_MAX_TX_WINDOW_def Let_def)

end
