(* ===== verification/Pacing.thy ===== *)
theory Pacing
  imports Generator_Run
begin

text \<open>
  The generator's schedule: frame \<open>k\<close> of a scheduled run is attempted no earlier than
  \<open>k * 10^6 / rate\<close> microseconds after the start, the 64-bit arithmetic of the schedule does not
  overflow within a day, and so a run never attempts more frames than its rate allows. \<open>start\<close>,
  \<open>k\<close> and the clock are natural numbers here.
\<close>

section \<open>Schedule arithmetic\<close>

text \<open>The time of attempt \<open>k\<close> after the start, at \<open>n\<close> frames per second.\<close>

definition due :: "nat \<Rightarrow> nat \<Rightarrow> nat" where
  "due n k = k * 1000000 div n"

lemma due_mono: "j \<le> k \<Longrightarrow> due n j \<le> due n k"
  by (simp add: due_def div_le_mono)

text \<open>A day of microseconds: how far a counter that advances at most once a microsecond gets.\<close>

definition day_us :: nat where "day_us = 86400000000"

lemma due_word:
  fixes start i :: u64 and n :: u64
  assumes "n \<noteq> 0" "unat i \<le> day_us" "unat start < 2 ^ 63"
  shows "unat (start + i * 1000000 div n) = unat start + due (unat n) (unat i)"
    "due (unat n) (unat i) \<le> day_us * 1000000"
proof -
  have i: "unat i * 1000000 \<le> day_us * 1000000" using assms(2) by simp
  then have m: "unat (i * 1000000) = unat i * 1000000"
    by (simp add: unat_word_ariths day_us_def)
  have "due (unat n) (unat i) \<le> unat i * 1000000" by (simp add: due_def)
  then show le: "due (unat n) (unat i) \<le> day_us * 1000000" using i by (rule order_trans)
  have d: "unat (i * 1000000 div n) = due (unat n) (unat i)"
    by (simp add: unat_div m due_def)
  show "unat (start + i * 1000000 div n) = unat start + due (unat n) (unat i)"
    using le assms(3) by (subst unat_word_ariths(1)) (simp add: d day_us_def)
qed

section \<open>Attempts\<close>

text \<open>Every call of \<^verbatim>\<open>send_one\<close> opens one attempt.\<close>

lemma metrics_requested_simps [simp]:
  "t_tx_requested (totals (metrics_tx_requested st m)) = t_tx_requested (totals m) + 1"
  "t_tx_requested (totals (metrics_tx_slot_timeout m)) = t_tx_requested (totals m)"
  "t_tx_requested (totals (metrics_tx_api_failure m)) = t_tx_requested (totals m)"
  "t_tx_requested (totals (metrics_tx_submitted st len t m)) = t_tx_requested (totals m)"
  "t_tx_requested (totals (metrics_dispatch_lateness a b m)) = t_tx_requested (totals m)"
  by (simp_all add: metrics_tx_requested_def metrics_tx_slot_timeout_def metrics_tx_api_failure_def
      metrics_tx_submitted_def metrics_dispatch_lateness_def upd_stream_def Let_def)

definition attempts :: "'w fw \<Rightarrow> u64" where
  "attempts s = t_tx_requested (totals (g_metrics s))"

lemma attempts_simps [simp]:
  "attempts (upd_metrics u s) = t_tx_requested (totals (u (g_metrics s)))"
  "attempts (snd (call f s)) = attempts s" "attempts (exec h s) = attempts s"
  by (simp_all add: attempts_def)

lemma send_one_attempts: "attempts (snd (send_one P ty st q len dl sch s)) = attempts s + 1"
  by (auto simp: attempts_def send_one_def radio_acquire_tx_def radio_release_tx_def
      radio_send_acquired_def Let_def case_prod_unfold split: bool.split option.split)

lemma send_next_attempts:
  "attempts (snd (send_next P ty i len dl sch l s)) = attempts s + 1"
  "gl_index (fst (send_next P ty i len dl sch l s)) = gl_index l"
  "gl_start_us (fst (send_next P ty i len dl sch l s)) = gl_start_us l"
  "gl_probe_index (fst (send_next P ty i len dl sch l s)) = gl_probe_index l"
  "gl_background_index (fst (send_next P ty i len dl sch l s)) = gl_background_index l"
  "gl_next_probe_us (fst (send_next P ty i len dl sch l s)) = gl_next_probe_us l"
  "gl_next_background_us (fst (send_next P ty i len dl sch l s)) = gl_next_background_us l"
  "gl_end_us (fst (send_next P ty i len dl sch l s)) = gl_end_us l"
  by (simp_all add: send_next_def send_one_attempts Let_def case_prod_unfold)

lemma wait_deadline_attempts: "wait_deadline P d s = Some s' \<Longrightarrow> attempts s' = attempts s"
  by (simp add: attempts_def wait_deadline_frame)

lemma send_next_clock:
  "clock_laws P clock \<Longrightarrow> clock (world s) \<le> clock (world (snd (send_next P ty i len dl sch l s)))"
  using send_one_clock by (simp add: send_next_def Let_def case_prod_unfold)

section \<open>The invariant of a scheduled run\<close>

text \<open>
  \<open>c\<close> is the configuration, \<open>a0\<close> the attempts before the run. After \<open>gl_index\<close> attempts that many
  microseconds have passed, and the last attempt was due. In latency mode the two schedules have
  their own indices, and the next deadline of each is the due time of its index.
\<close>

definition sched_ok :: "nat \<Rightarrow> nat \<Rightarrow> nat \<Rightarrow> nat \<Rightarrow> bool" where
  "sched_ok start n k now \<longleftrightarrow> (0 < k \<longrightarrow> start + due n (k - 1) \<le> now)"

definition paced :: "('w \<Rightarrow> u64) \<Rightarrow> u64 \<Rightarrow> gen_local \<Rightarrow> 'w fw \<Rightarrow> bool" where
  "paced clock a0 l s \<longleftrightarrow> attempts s = a0 + gl_index l \<and>
     unat (gl_start_us l) + unat (gl_index l) \<le> unat (clock (world s)) \<and>
     (stream_rate (g_config s) \<noteq> 0 \<longrightarrow>
        sched_ok (unat (gl_start_us l)) (unat (stream_rate (g_config s))) (unat (gl_index l))
          (unat (clock (world s))))"

definition paced_latency :: "('w \<Rightarrow> u64) \<Rightarrow> u64 \<Rightarrow> gen_local \<Rightarrow> 'w fw \<Rightarrow> bool" where
  "paced_latency clock a0 l s \<longleftrightarrow>
     (let start = unat (gl_start_us l); now = unat (clock (world s));
          p = unat (gl_probe_index l); b = unat (gl_background_index l);
          pr = unat (probe_rate (g_config s)); br = unat (background_rate (g_config s))
      in attempts s = a0 + gl_probe_index l + gl_background_index l \<and> start + p + b \<le> now \<and>
         sched_ok start pr p now \<and> sched_ok start br b now \<and>
         unat (gl_next_probe_us l) = start + due pr p \<and>
         unat (gl_next_background_us l) = start + due br b)"

lemma sched_ok_mono: "sched_ok start n k now \<Longrightarrow> now \<le> now' \<Longrightarrow> sched_ok start n k now'"
  by (auto simp: sched_ok_def)

lemma sched_ok_Suc: "start + due n k \<le> now \<Longrightarrow> sched_ok start n (Suc k) now"
  by (simp add: sched_ok_def)

lemma unat_Suc_day:
  fixes i :: u64
  shows "unat i \<le> day_us \<Longrightarrow> unat (i + 1) = Suc (unat i)"
  by (simp add: unat_word_ariths day_us_def)

text \<open>
  One turn, from a clock that has passed the attempts so far by a reading: the state a successful
  \<open>gen_cond\<close> leaves.
\<close>

lemma gen_stream_turn_paced:
  assumes C: "clock_laws P clock" and r: "gen_stream_turn P l s = Some r"
    and a: "attempts s = a0 + gl_index l"
    and now: "unat (gl_start_us l) + unat (gl_index l) < unat (clock (world s))"
    and small: "unat (gl_index l) \<le> day_us" "unat (gl_start_us l) < 2 ^ 63"
  shows "paced clock a0 (fst r) (snd r)" "gl_start_us (fst r) = gl_start_us l"
    "gl_end_us (fst r) = gl_end_us l" "g_config (snd r) = g_config s"
proof -
  let ?rate = "stream_rate (g_config s)"
  let ?d = "if ?rate \<noteq> 0 then gl_start_us l + gl_index l * 1000000 div ?rate else 0"
  obtain s' where s': "(if ?rate \<noteq> 0 then wait_deadline P ?d s else Some s) = Some s'"
    using r by (auto simp: gen_stream_turn_def Let_def split: option.splits if_splits)
  have w: "g_config s' = g_config s" "attempts s' = attempts s" "clock (world s) \<le> clock (world s')"
    "?rate \<noteq> 0 \<Longrightarrow> ?d \<le> clock (world s')"
    using s' wait_deadline_returns [OF C, of ?d s]
    by (auto simp: attempts_def wait_deadline_frame split: if_splits)
  obtain ty i where eq: "r = (let r = send_next P ty i (packet_size (g_config s)) ?d (?rate \<noteq> 0) l s'
      in ((fst r)\<lparr>gl_index := gl_index (fst r) + 1\<rparr>, snd r))"
    using r s' by (auto simp: gen_stream_turn_def Let_def case_prod_unfold split: if_splits)
  have t: "clock (world s') \<le> clock (world (snd r))"
    using send_next_clock [OF C] by (simp add: eq Let_def)
  have cfg: "g_config (snd r) = g_config s"
    using w(1) by (simp add: eq Let_def send_next_def send_one_frame case_prod_unfold)
  have "sched_ok (unat (gl_start_us l)) (unat ?rate) (Suc (unat (gl_index l))) (unat (clock (world (snd r))))"
    if "?rate \<noteq> 0"
  proof (rule sched_ok_Suc)
    show "unat (gl_start_us l) + due (unat ?rate) (unat (gl_index l)) \<le> unat (clock (world (snd r)))"
      using due_word(1) [OF that small] w(4) [OF that] t that
      by (auto simp: word_le_nat_alt)
  qed
  moreover have "unat (clock (world s)) \<le> unat (clock (world (snd r)))"
    using w(3) t by (auto simp: word_le_nat_alt)
  moreover have "gl_index (fst r) = gl_index l + 1" "attempts (snd r) = attempts s + 1"
    and start: "gl_start_us (fst r) = gl_start_us l" and stop: "gl_end_us (fst r) = gl_end_us l"
    using w(2) by (simp_all add: eq Let_def send_next_attempts)
  ultimately show "paced clock a0 (fst r) (snd r)"
    using now a cfg unat_Suc_day [OF small(1)] by (simp add: paced_def)
  show "gl_start_us (fst r) = gl_start_us l" "gl_end_us (fst r) = gl_end_us l" by (rule start stop)+
  show "g_config (snd r) = g_config s" by (rule cfg)
qed

lemma gen_stream_turn_attempts:
  assumes "gen_stream_turn P l s = Some r"
  shows "attempts (snd r) = attempts s + 1"
  using assms
  by (auto simp: gen_stream_turn_def Let_def case_prod_unfold send_next_attempts
      dest!: wait_deadline_attempts split: option.splits if_splits)

lemma gen_latency_turn_paced:
  assumes C: "clock_laws P clock" and r: "gen_latency_turn P l s = Some r"
    and ok: "paced_latency clock a0 l s0" "g_config s0 = g_config s" "attempts s0 = attempts s"
    and now: "clock (world s0) < clock (world s)"
    and small: "unat (gl_probe_index l) + unat (gl_background_index l) < day_us"
      "unat (gl_start_us l) < 2 ^ 63"
  shows "paced_latency clock a0 (fst r) (snd r)" "gl_start_us (fst r) = gl_start_us l"
    "gl_end_us (fst r) = gl_end_us l" "g_config (snd r) = g_config s"
proof -
  let ?c = "g_config s" and ?start = "unat (gl_start_us l)"
  let ?probe = "gl_next_probe_us l \<le> gl_next_background_us l"
  let ?d = "if ?probe then gl_next_probe_us l else gl_next_background_us l"
  obtain s' where s': "wait_deadline P ?d s = Some s'"
    using r by (auto simp: gen_latency_turn_def Let_def split: option.splits)
  have w: "g_config s' = ?c" "attempts s' = attempts s" "clock (world s) \<le> clock (world s')"
    "?d \<le> clock (world s')"
    using s' wait_deadline_returns [OF C, of ?d s] by (auto simp: attempts_def wait_deadline_frame)
  obtain ty i len where q: "snd r = snd (send_next P ty i len ?d True l s')"
    and eq: "if ?probe then probe_rate ?c \<noteq> 0 \<and> gl_probe_index (fst r) = gl_probe_index l + 1 \<and>
        gl_background_index (fst r) = gl_background_index l \<and>
        gl_next_background_us (fst r) = gl_next_background_us l \<and>
        gl_next_probe_us (fst r) = gl_start_us l + (gl_probe_index l + 1) * 1000000 div ucast (probe_rate ?c)
      else background_rate ?c \<noteq> 0 \<and> gl_background_index (fst r) = gl_background_index l + 1 \<and>
        gl_probe_index (fst r) = gl_probe_index l \<and> gl_next_probe_us (fst r) = gl_next_probe_us l \<and>
        gl_next_background_us (fst r) =
          gl_start_us l + (gl_background_index l + 1) * 1000000 div ucast (background_rate ?c)"
    and start: "gl_start_us (fst r) = gl_start_us l" and stop: "gl_end_us (fst r) = gl_end_us l"
    using r s' unfolding gen_latency_turn_def Let_def case_prod_unfold
    by (cases ?probe) (auto simp: send_next_attempts split: if_splits)
  show "gl_start_us (fst r) = gl_start_us l" "gl_end_us (fst r) = gl_end_us l" by (rule start stop)+
  show cfg: "g_config (snd r) = ?c"
    using w(1) by (simp add: q send_next_def send_one_frame case_prod_unfold Let_def)
  have late: "clock (world s') \<le> clock (world (snd r))"
    using send_next_clock [OF C] by (simp add: q)
  then have t: "unat ?d \<le> unat (clock (world (snd r)))" "unat (clock (world s0)) < unat (clock (world (snd r)))"
    using w(3,4) now by (auto simp: word_le_nat_alt word_less_nat_alt)
  have att: "attempts (snd r) = attempts s + 1" using w(2) by (simp add: q send_next_attempts)
  note ok' = ok(1) [unfolded paced_latency_def Let_def ok(2,3)]
  have word: "unat (gl_start_us l + (i + 1) * 1000000 div ucast n) = ?start + due (unat n) (Suc (unat i))"
    "unat (i + 1) = Suc (unat i)"
    if "n \<noteq> 0" "unat i < day_us" for n :: u32 and i :: u64
  proof -
    show i: "unat (i + 1) = Suc (unat i)" using that(2) by (intro unat_Suc_day) simp
    have n: "unat (ucast n :: u64) = unat n" by (simp add: unat_ucast_up)
    then have "(ucast n :: u64) \<noteq> 0" using that(1) by (metis unat_0 unat_eq_zero)
    then show "unat (gl_start_us l + (i + 1) * 1000000 div ucast n) = ?start + due (unat n) (Suc (unat i))"
      using due_word(1) [of "ucast n" "i + 1" "gl_start_us l"] i n that(2) small(2) by simp
  qed
  show "paced_latency clock a0 (fst r) (snd r)"
  proof (cases ?probe)
    case True
    then show ?thesis
      using ok' eq att t small(1) word [of "probe_rate ?c" "gl_probe_index l"]
      by (auto simp: paced_latency_def Let_def cfg start intro!: sched_ok_Suc elim!: sched_ok_mono)
  next
    case False
    then show ?thesis
      using ok' eq att t small(1) word [of "background_rate ?c" "gl_background_index l"]
      by (auto simp: paced_latency_def Let_def cfg start intro!: sched_ok_Suc elim!: sched_ok_mono)
  qed
qed

section \<open>The loop\<close>

lemma gen_cond_clock:
  assumes C: "clock_laws P clock" and T: "ticking P clock" and go: "fst (gen_cond P l s)"
  shows "g_config (snd (gen_cond P l s)) = g_config s" "attempts (snd (gen_cond P l s)) = attempts s"
    "clock (world s) < gl_end_us l" "clock (world s) < clock (world (snd (gen_cond P l s)))"
proof -
  have g: "clock (world s) < gl_end_us l"
    "snd (gen_cond P l s) = snd (call (p_timer P) s)"
    using go clock_calls(6) [OF C] by (auto simp: gen_cond_def Let_def case_prod_unfold split: if_splits)
  then show "clock (world s) < gl_end_us l" by simp
  have "clock (world s) < - 1" using g(1) word_n1_ge by (rule order_less_le_trans)
  then show "clock (world s) < clock (world (snd (gen_cond P l s)))"
    using T g(2) by (simp add: ticking_def)
  show "g_config (snd (gen_cond P l s)) = g_config s" "attempts (snd (gen_cond P l s)) = attempts s"
    using g(2) by simp_all
qed

text \<open>
  A property of the task's locals and the machine that the loop condition keeps and every turn
  taken under it keeps holds when the loop ends.
\<close>

lemma gen_loop_rule:
  assumes "gen_loop P l s = Some r" "I l s"
    and cond: "\<And>l s. I l s \<Longrightarrow> \<not> fst (gen_cond P l s) \<Longrightarrow> I l (snd (gen_cond P l s))"
    and turn: "\<And>l s r. I l s \<Longrightarrow> fst (gen_cond P l s) \<Longrightarrow> gen_turn P l (snd (gen_cond P l s)) = Some r \<Longrightarrow>
      I (fst r) (snd r)"
  shows "I (fst r) (snd r)"
proof -
  have "(\<lambda>((P', l), s) r. P' = P \<longrightarrow> I l s \<longrightarrow> I (fst r) (snd r)) ((P, l), s) r"
  proof (rule gen_loop.raw_induct [OF _ assms(1)], goal_cases)
    case (1 gl P' l s r)
    note eq = 1(2) [unfolded Let_def case_prod_unfold]
    show ?case
    proof (cases "fst (gen_cond P' l s)")
      case True
      then obtain r' where "gen_turn P' l (snd (gen_cond P' l s)) = Some r'"
        "gl P' (fst r') (snd r') = Some r"
        using eq by (auto split: option.splits)
      then show ?thesis using 1(1) [of P' "fst r'" "snd r'" r] turn [of l s r'] True by auto
    next
      case False
      then show ?thesis using eq cond [of l s] by auto
    qed
  qed
  then show ?thesis using assms(2) by simp
qed

text \<open>
  The loop of a scheduled run that begins at \<open>start\<close> and lasts \<open>dur\<close>: \<open>begun\<close> says that all
  attempts but the last were due before the end.
\<close>

definition begun :: "nat \<Rightarrow> nat \<Rightarrow> nat \<Rightarrow> bool" where
  "begun n k dur \<longleftrightarrow> (1 < k \<longrightarrow> due n (k - 2) < dur)"

lemma begun_Suc:
  assumes "sched_ok start n k now" "now < start + dur"
  shows "begun n (Suc k) dur"
proof (cases k)
  case (Suc j)
  then show ?thesis using assms by (simp add: begun_def sched_ok_def)
qed (simp add: begun_def)

definition stream_run :: "('w \<Rightarrow> u64) \<Rightarrow> harness_config \<Rightarrow> u64 \<Rightarrow> u64 \<Rightarrow> gen_local \<Rightarrow> 'w fw \<Rightarrow> bool" where
  "stream_run clock c start a0 l s \<longleftrightarrow> g_config s = c \<and> gl_start_us l = start \<and>
     gl_end_us l = start + duration_us c \<and> paced clock a0 l s \<and>
     (stream_rate c \<noteq> 0 \<longrightarrow> begun (unat (stream_rate c)) (unat (gl_index l)) (unat (duration_us c)))"

lemma run_end:
  fixes start d :: u64
  assumes "unat start < 2 ^ 63" "unat d \<le> day_us"
  shows "unat (start + d) = unat start + unat d"
  using assms by (simp add: unat_word_ariths day_us_def)

lemma stream_run_turn:
  assumes C: "clock_laws P clock" and T: "ticking P clock"
    and m: "mode c \<noteq> MODE_LATENCY_LOAD" and d: "unat (duration_us c) \<le> day_us" "unat start < 2 ^ 63"
    and ok: "stream_run clock c start a0 l s" and go: "fst (gen_cond P l s)"
    and r: "gen_turn P l (snd (gen_cond P l s)) = Some r"
  shows "stream_run clock c start a0 (fst r) (snd r)"
proof -
  let ?s1 = "snd (gen_cond P l s)"
  note g = gen_cond_clock [OF C T go]
  have ok': "g_config s = c" "gl_start_us l = start" "gl_end_us l = start + duration_us c"
    "attempts s = a0 + gl_index l" "unat start + unat (gl_index l) \<le> unat (clock (world s))"
    "stream_rate c \<noteq> 0 \<Longrightarrow>
       sched_ok (unat start) (unat (stream_rate c)) (unat (gl_index l)) (unat (clock (world s)))"
    using ok by (auto simp: stream_run_def paced_def)
  have now: "unat (clock (world s)) < unat start + unat (duration_us c)"
    using g(3) run_end [OF d(2,1)] by (simp add: ok'(3) word_less_nat_alt)
  have turn: "gen_stream_turn P l ?s1 = Some r"
    using r m g(1) ok'(1) by (simp add: gen_turn_def)
  have "unat (gl_start_us l) + unat (gl_index l) < unat (clock (world ?s1))"
    using g(4) ok'(2,5) by (simp add: word_less_nat_alt)
  moreover have day: "unat (gl_index l) \<le> day_us" using now ok'(5) d(1) by linarith
  ultimately have t: "paced clock a0 (fst r) (snd r)" "gl_start_us (fst r) = start"
    "gl_end_us (fst r) = start + duration_us c" "g_config (snd r) = c"
    using gen_stream_turn_paced [OF C turn, of a0] g(1,2) ok'(1-4) d(2) by simp_all
  have "attempts (snd r) = a0 + gl_index (fst r)" "attempts (snd r) = a0 + (gl_index l + 1)"
    using t(1) gen_stream_turn_attempts [OF turn] g(2) ok'(4) by (simp_all add: paced_def)
  then have "gl_index (fst r) = gl_index l + 1" by simp
  then have "stream_rate c \<noteq> 0 \<Longrightarrow>
      begun (unat (stream_rate c)) (unat (gl_index (fst r))) (unat (duration_us c))"
    using begun_Suc [OF ok'(6) now] unat_Suc_day [OF day] by simp
  then show ?thesis using t by (simp add: stream_run_def)
qed

definition latency_run :: "('w \<Rightarrow> u64) \<Rightarrow> harness_config \<Rightarrow> u64 \<Rightarrow> u64 \<Rightarrow> gen_local \<Rightarrow> 'w fw \<Rightarrow> bool" where
  "latency_run clock c start a0 l s \<longleftrightarrow> g_config s = c \<and> gl_start_us l = start \<and>
     gl_end_us l = start + duration_us c \<and> paced_latency clock a0 l s"

lemma latency_run_turn:
  assumes C: "clock_laws P clock" and T: "ticking P clock"
    and m: "mode c = MODE_LATENCY_LOAD" and d: "unat (duration_us c) \<le> day_us" "unat start < 2 ^ 63"
    and ok: "latency_run clock c start a0 l s" and go: "fst (gen_cond P l s)"
    and r: "gen_turn P l (snd (gen_cond P l s)) = Some r"
  shows "latency_run clock c start a0 (fst r) (snd r)"
proof -
  let ?s1 = "snd (gen_cond P l s)"
  note g = gen_cond_clock [OF C T go]
  have ok': "g_config s = c" "gl_start_us l = start" "gl_end_us l = start + duration_us c"
    "unat start + unat (gl_probe_index l) + unat (gl_background_index l) \<le> unat (clock (world s))"
    "paced_latency clock a0 l s"
    using ok by (auto simp: latency_run_def paced_latency_def Let_def)
  have now: "unat (clock (world s)) < unat start + unat (duration_us c)"
    using g(3) run_end [OF d(2,1)] by (simp add: ok'(3) word_less_nat_alt)
  have turn: "gen_latency_turn P l ?s1 = Some r"
    using r m g(1) ok'(1) by (simp add: gen_turn_def)
  have "unat (gl_probe_index l) + unat (gl_background_index l) < day_us" using now ok'(4) d(1) by linarith
  then show ?thesis
    using gen_latency_turn_paced [OF C turn ok'(5)] g(1,2,4) ok'(1-3) d(2)
    by (simp add: latency_run_def)
qed

section \<open>The task\<close>

lemma gen_cond_clock_le:
  assumes "clock_laws P clock"
  shows "clock (world s) \<le> clock (world (snd (gen_cond P l s)))"
    "g_config (snd (gen_cond P l s)) = g_config s" "attempts (snd (gen_cond P l s)) = attempts s"
  using clock_calls(1) [OF assms] by (simp_all add: gen_cond_def Let_def case_prod_unfold)

lemma run_kept_by_cond:
  assumes C: "clock_laws P clock"
  shows "stream_run clock c start a0 l s \<Longrightarrow> stream_run clock c start a0 l (snd (gen_cond P l s))"
    "latency_run clock c start a0 l s \<Longrightarrow> latency_run clock c start a0 l (snd (gen_cond P l s))"
proof -
  note g = gen_cond_clock_le [OF C, where s = s and l = l]
  have "unat (clock (world s)) \<le> unat (clock (world (snd (gen_cond P l s))))"
    using g(1) by (simp add: word_le_nat_alt)
  then show "stream_run clock c start a0 l s \<Longrightarrow> stream_run clock c start a0 l (snd (gen_cond P l s))"
    "latency_run clock c start a0 l s \<Longrightarrow> latency_run clock c start a0 l (snd (gen_cond P l s))"
    using g(2,3)
    by (auto simp: stream_run_def latency_run_def paced_def paced_latency_def Let_def elim: sched_ok_mono)
qed

lemma run_begins:
  fixes s :: "'w fw" and P :: "'w platform"
  assumes C: "clock_laws P clock"
  defines "l \<equiv> fst (gen_begin P s)" and "s' \<equiv> snd (gen_begin P s)"
  shows "stream_run clock (g_config s) (clock (world s)) (attempts s) l s'"
    "latency_run clock (g_config s) (clock (world s)) (attempts s) l s'"
proof -
  have "attempts s' = attempts s"
    by (simp add: s'_def gen_begin_def Let_def case_prod_unfold) (simp add: attempts_def)
  moreover have b: "g_config s' = g_config s" "gl_start_us l = clock (world s)"
    "gl_end_us l = clock (world s) + duration_us (g_config s)" "gl_index l = 0" "gl_probe_index l = 0"
    "gl_background_index l = 0" "gl_next_probe_us l = clock (world s)"
    "gl_next_background_us l = clock (world s)" "clock (world s) \<le> clock (world s')"
    using clock_calls(1,6) [OF C]
    by (simp_all add: l_def s'_def gen_begin_def Let_def case_prod_unfold)
  have "unat (clock (world s)) \<le> unat (clock (world s'))" using b(9) by (simp add: word_le_nat_alt)
  ultimately show "stream_run clock (g_config s) (clock (world s)) (attempts s) l s'"
    "latency_run clock (g_config s) (clock (world s)) (attempts s) l s'"
    using b by (simp_all add: stream_run_def latency_run_def paced_def paced_latency_def Let_def
        sched_ok_def begun_def due_def)
qed

lemma gen_finish_attempts: "attempts (gen_finish P s) = attempts s"
  by (simp add: gen_finish_def attempts_def Let_def case_prod_unfold)

lemma gen_finish_clock: "clock_laws P clock \<Longrightarrow> clock (world s) \<le> clock (world (gen_finish P s))"
  using clock_calls(1) [of P clock] by (simp add: gen_finish_def Let_def case_prod_unfold)

lemma generator_task_parts:
  assumes "generator_task P s = Some s'"
  obtains l s1 where "gen_loop P (fst (gen_begin P s)) (snd (gen_begin P s)) = Some (l, s1)"
    "s' = gen_finish P s1"
  using assms by (auto simp: generator_task_def Let_def case_prod_unfold split: option.splits)

text \<open>
  A scheduled run of a stream or ping mode: \<open>k\<close> attempts, the last one due by the end of the task
  and all but the last due before the end of the run.
\<close>

lemma stream_task_paced:
  fixes s s' :: "'w fw" and P :: "'w platform"
  assumes C: "clock_laws P clock" and T: "ticking P clock" and r: "generator_task P s = Some s'"
    and m: "mode (g_config s) \<noteq> MODE_LATENCY_LOAD" "stream_rate (g_config s) \<noteq> 0"
    and d: "unat (duration_us (g_config s)) \<le> day_us" "unat (clock (world s)) < 2 ^ 63"
  defines "n \<equiv> unat (stream_rate (g_config s))" and "start \<equiv> unat (clock (world s))"
  shows "\<exists>k. attempts s' = attempts s + of_nat k \<and> start + k \<le> unat (clock (world s')) \<and>
    sched_ok start n k (unat (clock (world s'))) \<and> begun n k (unat (duration_us (g_config s)))"
proof -
  obtain l s1 where l: "gen_loop P (fst (gen_begin P s)) (snd (gen_begin P s)) = Some (l, s1)"
    "s' = gen_finish P s1"
    by (rule generator_task_parts [OF r])
  let ?I = "stream_run clock (g_config s) (clock (world s)) (attempts s)"
  have "?I (fst (l, s1)) (snd (l, s1))"
    by (rule gen_loop_rule [OF l(1), of ?I])
      (use run_begins(1) [OF C] run_kept_by_cond(1) [OF C] stream_run_turn [OF C T m(1) d] in blast)+
  then have i: "?I l s1" by simp
  have "unat (clock (world s1)) \<le> unat (clock (world s'))"
    using gen_finish_clock [OF C] by (simp add: l(2) word_le_nat_alt)
  then show ?thesis
    using i m(2)
    by (intro exI [of _ "unat (gl_index l)"])
      (auto simp: stream_run_def paced_def l(2) gen_finish_attempts n_def start_def elim: sched_ok_mono)
qed

lemma latency_task_paced:
  fixes s s' :: "'w fw" and P :: "'w platform"
  assumes C: "clock_laws P clock" and T: "ticking P clock" and r: "generator_task P s = Some s'"
    and m: "mode (g_config s) = MODE_LATENCY_LOAD"
    and d: "unat (duration_us (g_config s)) \<le> day_us" "unat (clock (world s)) < 2 ^ 63"
  defines "start \<equiv> unat (clock (world s))" and "now \<equiv> unat (clock (world s'))"
  shows "\<exists>p b. attempts s' = attempts s + of_nat p + of_nat b \<and> start + p + b \<le> now \<and>
    sched_ok start (unat (probe_rate (g_config s))) p now \<and>
    sched_ok start (unat (background_rate (g_config s))) b now"
proof -
  obtain l s1 where l: "gen_loop P (fst (gen_begin P s)) (snd (gen_begin P s)) = Some (l, s1)"
    "s' = gen_finish P s1"
    by (rule generator_task_parts [OF r])
  let ?I = "latency_run clock (g_config s) (clock (world s)) (attempts s)"
  have "?I (fst (l, s1)) (snd (l, s1))"
    by (rule gen_loop_rule [OF l(1), of ?I])
      (use run_begins(2) [OF C] run_kept_by_cond(2) [OF C] latency_run_turn [OF C T m d] in blast)+
  then have i: "?I l s1" by simp
  have "unat (clock (world s1)) \<le> unat (clock (world s'))"
    using gen_finish_clock [OF C] by (simp add: l(2) word_le_nat_alt)
  then show ?thesis
    using i
    by (intro exI [of _ "unat (gl_probe_index l)"] exI [of _ "unat (gl_background_index l)"])
      (auto simp: latency_run_def paced_latency_def Let_def l(2) gen_finish_attempts start_def now_def
        elim: sched_ok_mono)
qed

end
