(* ===== verification/Rssi.thy ===== *)
theory Rssi
  imports Metrics
begin

text \<open>
  The RSSI statistics of \<^verbatim>\<open>metrics_rx\<close> over a whole run: count, sum, extrema and histogram are those
  of the samples, as long as the counters cannot wrap.
\<close>

definition rssi_view :: "metrics \<Rightarrow> u64 \<times> u64 \<times> u8 \<times> u8 \<times> u32 list" where
  "rssi_view m = (rssi_count m, rssi_sum m, rssi_min m, rssi_max m, rssi_hist m)"

lemma rssi_view_cong:
  "rssi_view m = rssi_view m' \<Longrightarrow> rssi_view (rx_rssi r m) = rssi_view (rx_rssi r m')"
  by (simp add: rssi_view_def rx_rssi_def Let_def)

lemma metrics_rx_rssi: "rssi_view (metrics_rx h r t m) = rssi_view (rx_rssi r m)"
proof -
  have "rssi_view (rtt_observe x m) = rssi_view m" for x m
    by (simp add: rssi_view_def rtt_observe_def Let_def)
  moreover have "rssi_view (rx_rssi r (rx_sequence h (rx_count h t m))) = rssi_view (rx_rssi r m)"
    by (rule rssi_view_cong) (simp add: rssi_view_def rx_sequence_def rx_count_def Let_def)
  ultimately show ?thesis by (simp add: metrics_rx_def Let_def)
qed

text \<open>The statistics of a list of samples.\<close>

definition rssi_ok :: "u8 list \<Rightarrow> metrics \<Rightarrow> bool" where
  "rssi_ok rs m \<longleftrightarrow> rssi_count m = of_nat (length rs) \<and> rssi_sum m = of_int (\<Sum>r\<leftarrow>rs. sint r) \<and>
     sint (rssi_min m) = Min (insert 127 (sint ` set rs)) \<and>
     sint (rssi_max m) = Max (insert (- 127) (sint ` set rs)) \<and>
     length (rssi_hist m) = 128 \<and>
     (\<forall>k < 128. rssi_hist m ! k = of_nat (length (filter (\<lambda>r. rssi_index r = k) rs)))"

lemma rssi_ok_view: "rssi_view m = rssi_view m' \<Longrightarrow> rssi_ok rs m = rssi_ok rs m'"
  by (simp add: rssi_view_def rssi_ok_def)

lemma rssi_ok_reset: "rssi_ok [] metrics_reset"
  by (simp add: rssi_ok_def metrics_reset_def)

lemma rssi_index_less: "rssi_index r < 128"
  by (auto simp: rssi_index_def Let_def)

lemma rssi_ok_rx:
  assumes "rssi_ok rs m"
  shows "rssi_ok (rs @ [r]) (rx_rssi r m)"
proof -
  let ?S = "sint ` set rs"
  have set: "sint ` set (rs @ [r]) = insert (sint r) ?S" by simp
  have "Min (insert (sint r) (insert 127 ?S)) = min (sint r) (Min (insert 127 ?S))"
    by (rule Min_insert) simp_all
  then have mn: "Min (insert 127 (insert (sint r) ?S)) = min (sint r) (sint (rssi_min m))"
    using assms by (simp only: rssi_ok_def insert_commute)
  have "Max (insert (sint r) (insert (- 127) ?S)) = max (sint r) (Max (insert (- 127) ?S))"
    by (rule Max_insert) simp_all
  then have mx: "Max (insert (- 127) (insert (sint r) ?S)) = max (sint r) (sint (rssi_max m))"
    using assms by (simp only: rssi_ok_def insert_commute)
  have "sint (rssi_min (rx_rssi r m)) = min (sint r) (sint (rssi_min m))"
    "sint (rssi_max (rx_rssi r m)) = max (sint r) (sint (rssi_max m))"
    by (simp_all add: rx_rssi_def Let_def)
  moreover have "rssi_count (rx_rssi r m) = rssi_count m + 1" "rssi_sum (rx_rssi r m) = rssi_sum m + scast r"
    "rssi_hist (rx_rssi r m) = (rssi_hist m)[rssi_index r := rssi_hist m ! rssi_index r + 1]"
    by (simp_all add: rx_rssi_def Let_def)
  ultimately show ?thesis
    using assms rssi_index_less [of r] unfolding rssi_ok_def set mn mx
    by (auto simp: nth_list_update)
qed

definition receive_run :: "(bench_header \<times> u8 \<times> u64) list \<Rightarrow> metrics" where
  "receive_run xs = fold (\<lambda>(h, r, t). metrics_rx h r t) xs metrics_reset"

lemma receive_run_rssi: "rssi_ok (map (\<lambda>(h, r, t). r) xs) (receive_run xs)"
proof (induction xs rule: rev_induct)
  case (snoc x xs)
  obtain h r t where x: "x = (h, r, t)" by (cases x)
  have "rssi_ok (map (\<lambda>(h, r, t). r) xs @ [r]) (rx_rssi r (receive_run xs))"
    by (rule rssi_ok_rx [OF snoc])
  then have "rssi_ok (map (\<lambda>(h, r, t). r) xs @ [r]) (metrics_rx h r t (receive_run xs))"
    using rssi_ok_view [OF metrics_rx_rssi] by blast
  then show ?case by (simp add: receive_run_def x)
qed (simp add: receive_run_def rssi_ok_reset)

text \<open>The sum of fewer than \<open>2 ^ 56\<close> samples fits the 64-bit counter.\<close>

lemma sint_u8_range: "- 128 \<le> sint (r :: u8)" "sint (r :: u8) \<le> 127"
  using sint_ge [of r] sint_lt [of r] by simp_all

lemma sum_sint_bounds:
  "- 128 * int (length rs) \<le> (\<Sum>r\<leftarrow>rs. sint (r :: u8))" "(\<Sum>r\<leftarrow>rs. sint (r :: u8)) \<le> 127 * int (length rs)"
proof (induction rs)
  case (Cons r rs)
  { case 1 show ?case using Cons(1) sint_u8_range(1) [of r] by (simp add: algebra_simps) }
  { case 2 show ?case using Cons(2) sint_u8_range(2) [of r] by (simp add: algebra_simps) }
qed simp_all

lemma rssi_sum_fits:
  assumes "length rs < 2 ^ 56"
  shows "sint (of_int (\<Sum>r\<leftarrow>rs. sint (r :: u8)) :: u64) = (\<Sum>r\<leftarrow>rs. sint r)"
proof -
  let ?s = "\<Sum>r\<leftarrow>rs. sint r"
  have "- (2 ^ 63) \<le> ?s" "?s < 2 ^ 63" using sum_sint_bounds [of rs] assms by simp_all
  then show ?thesis by (simp add: signed_of_int signed_take_bit_int_eq_self)
qed

end
