(* ===== verification/Spec2Isabelle.thy ===== *)
theory Spec2Isabelle
  imports Examples Session Pacing Rssi
begin

text \<open>
  A verification development for the ESP-NOW benchmark harness: two ESP32-C5 boards exchange frames
  over ESP-NOW, and a host program configures them over serial lines, starts a run and collects
  their measurements.

  \<^bold>\<open>The program.\<close> The firmware is \<^verbatim>\<open>src/firmware/main\<close>. \<^verbatim>\<open>app_main.c\<close> starts the radio, the
  receiver task and the control task. The control task (\<^verbatim>\<open>control.c\<close>) reads one JSON command per
  line, checks it, configures the radio (\<^verbatim>\<open>radio.c\<close>), starts and stops the generator task
  (\<^verbatim>\<open>generator.c\<close>) and prints one reply per command. The generator takes a transmission slot, a token
  of a counting semaphore, for each frame and hands the frame to the driver, whose send callback
  returns the token. The callbacks post their events into a bounded queue, which the receiver task
  (\<^verbatim>\<open>receiver.c\<close>) empties into the measurement store (\<^verbatim>\<open>metrics.c\<close>), echoing pings on the way; the
  result command waits for both (\<^verbatim>\<open>drain_measurement_events\<close>) and prints the store.
  \<^verbatim>\<open>protocol.c\<close> is the header of every frame. The host is \<^verbatim>\<open>src/host/src\<close>; it has the same
  header in \<^verbatim>\<open>protocol.rs\<close>, scenarios in \<^verbatim>\<open>scenario.rs\<close>, the serial dialogue in \<^verbatim>\<open>device.rs\<close> and
  the run of both nodes in \<^verbatim>\<open>runner.rs\<close>.

  \<^bold>\<open>Machine state.\<close> The globals of the firmware are the record \<open>'w fw\<close>: \<open>g_config\<close>, \<open>g_state\<close>,
  \<open>g_metrics\<close>, the window of \<^verbatim>\<open>radio.c\<close>, the handles of \<^verbatim>\<open>receiver.c\<close> and \<^verbatim>\<open>generator.c\<close>, and a
  \<open>world\<close> of type \<open>'w\<close> that stands for everything outside. An operation takes the state and returns
  the new one. Integers are words of the width of the code, so additions wrap; \<open>int8_t\<close> and \<open>int64_t\<close>
  are words read with \<open>sint\<close>. A byte buffer is a list. An operation that can fail to return, or that
  would divide by zero, returns an \<open>option\<close>.

  \<^bold>\<open>The outside.\<close> FreeRTOS, ESP-IDF and cJSON are not in the repository. They are the parameters
  \<open>P :: 'w platform\<close>, one function per call, and \<open>J :: 'j cjson\<close>, the questions asked of a parsed
  document. What the firmware relies on is stated as named hypotheses, each in terms of a view of the
  world: \<open>slot_laws\<close> (the semaphore counts, and an accepted frame has one send callback
  outstanding), \<open>queue_laws\<close> (a queue of 64 events in order), \<open>peer_laws\<close> (the peer table),
  \<open>sent_laws\<close> (what the driver accepted), \<open>clock_laws\<close> and \<open>ticking\<close> (the microsecond clock does not
  go back, delays last as long as asked, reading it takes time), \<open>out_laws\<close> (what the console
  printed) and \<open>punctual\<close> (each timer call takes at most \<open>lag\<close> ticks). \<open>ref_platform\<close> satisfies all of
  them, and the witnesses run on it.

  \<^bold>\<open>Theories.\<close>
  \<^item> \<open>Prelude\<close>: word types, collections of rewrite rules, lists updated by index. \<open>Harness\<close>: \<^verbatim>\<open>harness.h\<close>.
  \<^item> \<open>Protocol\<close> and \<open>Host_Protocol\<close>: the two codecs and their agreement; the locale \<open>frame_codec\<close>.
  \<^item> \<open>Sequence\<close>: the 64-frame bitmap of \<^verbatim>\<open>sequence_observe\<close>, refined to the set of registered numbers
    and compared with the exact tracker of the host; the locale \<open>loss_tracker\<close>, interpreted on both.
  \<^item> \<open>Distribution\<close>, \<open>Metrics\<close>, \<open>Rssi\<close>: the measurement store, the invariants of each part, and the
    ledger of transmissions as the locale \<open>tx_ledger\<close>. \<open>Binary64\<close>, \<open>Report\<close>: \<^verbatim>\<open>metrics_json\<close>, its
    percentiles and rates, with the rounding of C doubles.
  \<^item> \<open>Cjson\<close>, \<open>Platform\<close>, \<open>Platform_Laws\<close>: documents, external calls and their laws.
  \<^item> \<open>Events\<close>, \<open>Radio\<close>, \<open>Receiver\<close>, \<open>Generator\<close>, \<open>Generator_Run\<close>: the tasks and callbacks, one
    definition per C function or loop body; a run of the generator returns and uses consecutive
    sequence numbers. \<open>Pacing\<close>: its schedule against the clock.
  \<^item> \<open>Config\<close>, \<open>Control\<close>: \<^verbatim>\<open>parse_config\<close> in three stages and \<open>dispatch\<close>. \<open>stop\<close> and \<open>result\<close> are
    split into the phases in which they wait (\<open>job\<close>), so that the other tasks run in between;
    \<open>Control_Phases\<close> shows that the phases in a row are the blocking calls of the code,
    \<open>Control_Safety\<close> what a turn keeps.
  \<^item> \<open>System\<close>, \<open>System_Inv\<close>: all tasks and callbacks interleaved, \<open>sys_step\<close>, and the invariant of
    every reachable state. \<open>End_To_End\<close>: facts about two devices. \<open>Replies\<close>: what the device
    prints for each command.
  \<^item> \<open>Host_Scenario\<close>, \<open>Host_Device\<close>: validation of a scenario, the commands sent for it and the
    replies read back, composed with the parser and the replies of the firmware. \<open>Session\<close>: the whole
    run of two nodes over serial lines, and the firmware model at the other end of them.
  \<^item> \<open>Examples\<close>: concrete configurations and states for the witnesses.

  \<^bold>\<open>Properties.\<close> C1 to C3 and C21 hold in every reachable state of the system. C4, C6 to C8,
  C13 to C15 and C37 say that the measurements are what they claim to be; C9 to C12, C23 and C24 are the formats;
  C16, C17 and C25 to C27 the radio and its slots; C19, C20 and C35 the configuration, from the
  scenario to the fields the firmware runs with; C5, C18, C29 and C30 the
  generator, which ends, and offers no more than the scenario asks for; C22, C31 to C33
  and C36 are the dialogue: each command gets one reply, with its id, the host recognises it, and a
  refusal has no effect; C28 composes both sides: a valid scenario starts both nodes. C34 and C38 to C40 pin down behaviour that differs from what the code or
  its documentation intends.

  \<^bold>\<open>Steps, fuel and bounds.\<close> A turn of a loop, a handler or a callback is one atomic step; accesses of
  two tasks inside a step do not interleave, nor are torn or relaxed accesses modelled. Loops that
  need not end are \<open>partial_function (option)\<close>: \<open>None\<close> is not returning, and \<open>wait_deadline\<close>,
  \<open>generator_task\<close>, \<open>wait_handle\<close>, \<open>delete_peers\<close> and \<open>command_run\<close> are proved to return; there is no fuel.
  The schedule is exact for runs of at most a day (the limit the parser enforces) that start before
  \<open>2 ^ 63\<close> microseconds. Command ids and other numbers pass through doubles; below \<open>10 ^ 15\<close> cJSON
  prints them as integers. The sum of squares of a distribution is kept exact, as the 113-bit
  \<^verbatim>\<open>long double\<close> of the target does for fewer than \<open>2 ^ 49\<close> samples.

  \<^bold>\<open>Not modelled.\<close> The JSON text itself in both directions (cJSON, serde) and the TOML of scenario
  files; the host's serial ports, line reading, time-outs and sleeps (parameters of \<open>run_nodes\<close>) and
  \<^verbatim>\<open>discover\<close>, which are I/O around the decisions that are modelled; \<^verbatim>\<open>output.rs\<close> and
  \<^verbatim>\<open>main.rs\<close> (result files, arguments); the unit test \<^verbatim>\<open>test_protocol.c\<close>, whose checks are
  instances of the round trips; build files. In \<open>Host_Device\<close> a field of an integer type is read the
  way serde documents it (\<open>json_uint\<close>), and the lines a request reads are a list that ends at its
  deadline.
\<close>

section \<open>Properties\<close>





text \<open>
  C3. The state machine: from a reachable state a step changes the state only along the
  documented edges (configure, arm, start, stop, radio or task errors) or to FINISHED when the
  generator task ends, and it changes the configuration only outside ARMED and RUNNING.
\<close>

theorem system_state_edges:
  assumes "slot_laws P avail pending" and "peer_laws P peers" and "queue_laws P queued"
    and "reachable P J avail pending queued y" and "sys_step P J avail pending queued y y'"
  defines "a \<equiv> g_state (sy_fw y)" and "b \<equiv> g_state (sy_fw y')"
  shows "(a = b \<or> (b = STATE_CONFIGURED \<and> a \<notin> {STATE_ARMED, STATE_RUNNING}) \<or>
      (b = STATE_ARMED \<and> a = STATE_CONFIGURED) \<or> (b = STATE_RUNNING \<and> a = STATE_ARMED) \<or>
      (b = STATE_FINISHED \<and> (a \<in> {STATE_ARMED, STATE_RUNNING} \<or> sy_gen y \<noteq> Gen_None \<and> a \<noteq> STATE_ERROR)) \<or>
      (b = STATE_ERROR \<and> a \<noteq> STATE_RUNNING)) \<and>
    (a \<in> {STATE_ARMED, STATE_RUNNING} \<longrightarrow> g_config (sy_fw y') = g_config (sy_fw y))"
proof -
  have "sys_edge y y'"
    using sys_step_inv [OF assms(1-3) reachable_inv [OF assms(1-4)] assms(5)] by simp
  then show ?thesis by (auto simp: sys_edge_def command_edge_def a_def b_def Let_def)
qed

theorem system_state_edges_witness:
  "let y = initial_sys ref_platform ref_boot;
       b = g_state (receiver_step ref_platform (sy_fw y)) in b \<noteq> STATE_ARMED \<and> b \<noteq> STATE_RUNNING"
  using system_state_edges [OF ref_slot_laws ref_peer_laws ref_queue_laws
      ref_initial_reachable [of example_json] step_receiver]
  by (auto simp: Let_def ref_initial up_fw_def)

text \<open>
  C4. End to end: when a sink measures a run and its task handles frames of the run's generator
  (any subset, reordered or repeated within the 64-packet window), the stream's entry counts
  every frame, its duplicates exactly, and reports as missing exactly the frames sent before
  the last one that arrived and never received.
\<close>

theorem stream_loss_is_lost_frames:
  assumes "run_log c l fs" and "measuring_sink c s" and "i < HARNESS_MAX_STREAMS"
    and "length (m_streams (g_metrics s)) = HARNESS_MAX_STREAMS" "m_streams (g_metrics s) ! i = zero_stream"
    and "set (map fst arrivals) \<subseteq> set fs" "\<forall>f \<in> set fs. length f \<le> HARNESS_MAX_PACKET_SIZE"
    and "in_window {} (stream_seqs i (map fst arrivals))" "stream_seqs i (map fst arrivals) \<noteq> []"
    and "length (stream_seqs i fs) \<le> 2 ^ 32"
  shows "let got = stream_seqs i (map fst arrivals); sent = stream_seqs i fs;
      r = m_streams (g_metrics (receive_all P arrivals s)) ! i in
    sm_rx r = of_nat (length got) \<and> sm_duplicate r = of_nat (length got - card (set got)) \<and>
    gaps r = of_nat (card {q \<in> set sent. q \<le> Max (set got) \<and> q \<notin> set got})"
  using stream_loss [OF assms(1-8) assms(10), of P] assms(9) by (simp add: Let_def)

theorem stream_loss_is_lost_frames_witness:
  "let r = m_streams (g_metrics (receive_all ref_platform
       [(example_frame 0, 200, 10), (example_frame 2, 201, 20), (example_frame 2, 202, 30)] sink_fw)) ! 0 in
     sm_rx r = 3 \<and> sm_duplicate r = 1 \<and> gaps r = 1"
proof -
  let ?as = "[(example_frame 0, 200, 10), (example_frame 2, 201, 20), (example_frame 2, 202, 30)]"
  have w: "in_window {} (stream_seqs 0 (map fst ?as))" by (simp add: example_seqs_3 late_def)
  have m: "m_streams (g_metrics sink_fw) = replicate HARNESS_MAX_STREAMS zero_stream"
    by (simp add: sink_fw_def metrics_reset_def)
  have "{q \<in> {0, 1, 2}. q \<le> 2 \<and> q \<noteq> 0 \<and> q \<noteq> 2} = {1 :: u32}" by auto
  then show ?thesis
    using stream_loss_is_lost_frames [OF example_log sink_fw_measures, of 0 ?as ref_platform] w m
    by (simp add: example_seqs_3 HARNESS_MAX_STREAMS_def HARNESS_MAX_PACKET_SIZE_def example_frame(3)
        Let_def)
qed

text \<open>
  C5. With an accepted configuration and a timer that advances, the generator task returns: it
  leaves the store, the slots and the ledger in order, ends in FINISHED (or stays in ERROR),
  clears its handle, and the frames the driver accepted carry the run id, a configured size,
  and on every stream exactly the sequence numbers 0, 1, 2, ... in order.
\<close>

theorem generator_run_terminates:
  assumes "slot_laws P avail pending" and "sent_laws P sent" and "clock_laws P clock" and "ticking P clock"
    and "fw_ok avail pending s" and "gen_config_ok (g_config s)"
  shows "\<exists>s' fs. generator_task P s = Some s' \<and> fw_ok avail pending s' \<and>
    sent (world s') = sent (world s) @ fs \<and>
    (\<forall>f \<in> set fs. run_frame (g_config s) f) \<and>
    (\<forall>i < HARNESS_MAX_STREAMS. stream_seqs i fs = map of_nat [0..<length (stream_seqs i fs)]) \<and>
    tx_balance (g_metrics s') = tx_balance (g_metrics s) \<and> \<not> gen_handle s' \<and>
    g_state s' = (if g_state s = STATE_ERROR then STATE_ERROR else STATE_FINISHED)"
proof -
  obtain s' fs l where "generator_task P s = Some s'" "fw_ok avail pending s'"
    "sent (world s') = sent (world s) @ fs" "run_log (g_config s) l fs" "\<not> gen_handle s'"
    "tx_balance (g_metrics s') = tx_balance (g_metrics s)"
    "g_state s' = (if g_state s = STATE_ERROR then STATE_ERROR else STATE_FINISHED)"
    using generator_task_returns [OF assms] by blast
  then show ?thesis unfolding run_log_def by blast
qed

theorem generator_run_terminates_witness:
  "\<exists>s' fs. generator_task ref_platform running_fw = Some s' \<and> g_state s' = STATE_FINISHED \<and>
     rw_sent (world s') = rw_sent (world running_fw) @ fs \<and>
     stream_seqs 0 fs = map of_nat [0..<length (stream_seqs 0 fs)]"
proof -
  have "gen_config_ok (g_config running_fw)" "g_state running_fw = STATE_RUNNING"
    using example_gen_config by (simp_all add: running_fw_def)
  then show ?thesis
    using generator_run_terminates [OF ref_slot_laws ref_sent_laws ref_clock_laws ref_ticking
        running_fw_ok]
    by (auto simp: HARNESS_MAX_STREAMS_def)
qed

text \<open>
  C6. A received frame has exactly one fate: undecodable frames are counted invalid, frames of
  another run or outside a measurement are counted stale, and every other frame is measured;
  apart from the transmission counters of an echo, the store afterwards is the one its fate
  prescribes.
\<close>

theorem received_frame_fate:
  assumes "length d \<le> HARNESS_MAX_PACKET_SIZE"
  shows "tx_cleared (g_metrics (receiver_event P (rx_event d rssi at_us) s)) = tx_cleared
    (case decode_frame d of
       None \<Rightarrow> metrics_drop False True (g_metrics s)
     | Some h \<Rightarrow>
         if h_run_id h = run_id (g_config s) \<and>
            g_state s \<in> {STATE_ARMED, STATE_RUNNING, STATE_FINISHED}
         then metrics_rx h rssi at_us (g_metrics s)
         else metrics_drop True False (g_metrics s))"
  using receiver_frame_fate [OF event_wf_posted(1) [OF assms], of P rssi at_us s]
    event_wf_posted(2) [OF assms, of rssi at_us]
  by (auto simp: receiver_event_def frame_fate_def measurement_state_def rx_event_def zero_event_def
      split: option.split)

theorem received_frame_fate_witness:
  "tx_cleared (g_metrics (receiver_event ref_platform (rx_event (example_frame 3) 200 9) sink_fw)) =
     tx_cleared (metrics_rx (example_header 3) 200 9 (g_metrics sink_fw))"
  using received_frame_fate [of "example_frame 3" ref_platform 200 9 sink_fw] example_frame(2,3)
  by (simp add: HARNESS_MAX_PACKET_SIZE_def sink_fw_def up_fw_def example_header_def example_config_def)

text \<open>
  C7. The firmware's 64-packet bitmap and the host's exact set-based tracker agree on every
  sequence of arrivals none of which is 64 or more behind the maximum: same received,
  duplicate, out-of-order and missing counts.
\<close>

theorem bitmap_equals_exact_tracker:
  assumes "in_window {} xs"
  shows "let m = foldl sequence_observe zero_stream xs; t = foldl observe default_tracker xs in
    sm_rx m = received t \<and> sm_duplicate m = st_duplicate t \<and>
    sm_out_of_order m = st_out_of_order t \<and> gaps m = estimated_missing t"
  using bitmap_tracker.run_counts [OF assms] exact_tracker.run_counts [OF assms]
  by (simp add: Let_def)

theorem bitmap_equals_exact_tracker_witness:
  "gaps (foldl sequence_observe zero_stream [0, 5, 3, 5]) =
     estimated_missing (foldl observe default_tracker [0, 5, 3, 5])"
  using bitmap_equals_exact_tracker [of "[0, 5, 3, 5]"] by (simp add: late_def Let_def)

text \<open>
  C8. For any arrivals at all, the bitmap refines the set of the numbers registered so far (all
  but those 64 or more behind the maximum when they came): highest is its maximum, bit i of the
  bitmap says whether the number i below the maximum is in it, and gaps is the number of values
  up to the maximum that are not.
\<close>

theorem bitmap_refines_registered_set:
  "let m = foldl sequence_observe zero_stream xs; R = foldl register {} xs in
     tracks m R \<and> gaps m = missing_of R \<and> sm_rx m = of_nat (length xs)"
proof -
  have "tracks (foldl sequence_observe m xs) (foldl register R xs)" if "tracks m R" for m R
    using that by (induction xs arbitrary: m R) (simp_all add: tracks_sequence_observe)
  then show ?thesis
    using tracks_zero tracks_gaps bitmap_tracker.rx_fold [of zero_stream xs]
    by (auto simp: Let_def zero_stream_def)
qed

text \<open>
  C9. Decoding what the encoder wrote gives the header back, for every header with a stream id
  below 16.
\<close>

theorem header_decode_encode:
  assumes "bench_encode (Some b) n (Some h) = (True, Some b')" and "n \<le> length b"
    and "unat (h_stream_id h) < HARNESS_MAX_STREAMS"
  shows "bench_decode (Some b') (unat (h_packet_len h)) (Some h0) = (True, Some h)"
proof -
  have acc: "28 \<le> unat (h_packet_len h)" "unat (h_packet_len h) \<le> n"
    using assms(1) bench_encode_accepts [of b n h] by (simp_all add: BENCH_HEADER_SIZE_def)
  then have "28 \<le> length b" using assms(2) by simp
  from bench_encode_TrueE [OF assms(1) this] acc assms(3) show ?thesis
    by (simp add: bench_decode_def HARNESS_MAX_STREAMS_def BENCH_HEADER_SIZE_def Let_def)
qed

theorem header_decode_encode_witness:
  "\<exists>b'. bench_encode (Some (fill_packet 100)) 250 (Some (example_header 3)) = (True, Some b') \<and>
     bench_decode (Some b') 100 (Some zero_header) = (True, Some (example_header 3))"
proof -
  obtain b' where b': "bench_encode (Some (fill_packet 100)) 250 (Some (example_header 3)) = (True, Some b')"
    by (simp add: bench_encode_def example_header_def BENCH_HEADER_SIZE_def Let_def)
  show ?thesis
    using header_decode_encode [OF b', of zero_header] b'
    by (simp add: length_fill_packet example_header_def harness_limits)
qed

text \<open>
  C10. Re-encoding the header of an accepted frame over the frame leaves every byte as it was.
\<close>

theorem header_encode_decode:
  assumes "bench_decode (Some b) (length b) (Some h0) = (True, Some h)"
  shows "bench_encode (Some b) (length b) (Some h) = (True, Some b)"
proof -
  have d: "decode_frame b = Some h" using assms bench_decode_frame_iff by blast
  obtain b' where b': "bench_encode (Some b) (length b) (Some h) = (True, Some b')"
    "b = take (unat (h_packet_len h)) b'"
    using encode_frame_SomeD [OF encode_decode_frame [OF d]] .
  have "length b' = length b"
    using bench_encode_TrueE(1) [OF b'(1)] decode_frameD(1) [OF d] .
  then have "take (unat (h_packet_len h)) b' = b'" using decode_frameD(11) [OF d] by simp
  then have "b = b'" using b'(2) by (rule trans [rotated])
  then show ?thesis using b'(1) by simp
qed

theorem header_encode_decode_witness:
  "bench_encode (Some (example_frame 3)) 100 (Some (example_header 3)) = (True, Some (example_frame 3))"
  using header_encode_decode [of "example_frame 3" zero_header "example_header 3"]
    bench_decode_frame_iff [of "example_frame 3" zero_header "example_header 3"] example_frame(2,3)
  by simp

text \<open>
  C11. The firmware accepts exactly the frames the host's decoder accepts whose stream id is
  below 16, with the same header.
\<close>

theorem firmware_and_host_decoders:
  "bench_decode (Some b) (length b) (Some h0) = (True, Some h) \<longleftrightarrow>
     host_decode b = Inr h \<and> unat (h_stream_id h) < HARNESS_MAX_STREAMS"
  using bench_decode_frame_iff [of b h0 h] host_decode_frame_iff [of b h] by (simp add: header_wf_def)

text \<open>
  C12. The firmware's encoder writes the host's 28 header bytes at the front of the buffer and
  leaves the rest alone.
\<close>

theorem firmware_and_host_encoders:
  assumes "bench_encode (Some b) n (Some h) = (True, Some b')" and "28 \<le> length b"
  shows "b' = host_encode h @ drop 28 b"
  using assms by (rule bench_encode_host)

theorem firmware_and_host_encoders_witness:
  "\<exists>b'. bench_encode (Some (fill_packet 100)) 250 (Some (example_header 3)) = (True, Some b') \<and>
     b' = host_encode (example_header 3) @ drop 28 (fill_packet 100)"
proof -
  obtain b' where b': "bench_encode (Some (fill_packet 100)) 250 (Some (example_header 3)) = (True, Some b')"
    by (simp add: bench_encode_def example_header_def BENCH_HEADER_SIZE_def Let_def)
  then show ?thesis
    using firmware_and_host_encoders [OF b'] by (simp add: length_fill_packet harness_limits)
qed

text \<open>
  C13. After any sequence of samples the distribution holds exactly their number, sum, sum of
  squares, minimum and maximum (each sample saturated at 2^32-1), and the reservoir holds
  samples only: all of them, in order, as long as there are at most 8192.
\<close>

theorem distribution_statistics_exact:
  "let d = foldl distribution_add distribution_reset vs; xs = map bound_u32 vs in
     sample_count d = of_nat (length xs) \<and> d_sum d = of_nat (\<Sum>x\<leftarrow>xs. unat x) \<and>
     sum_sq d = (\<Sum>x\<leftarrow>xs. unat x * unat x) \<and>
     d_min d = (if xs = [] then 0xffffffff else Min (set xs)) \<and>
     d_max d = (if xs = [] then 0 else Max (set xs)) \<and>
     unat (reservoir_count d) = min (length xs) METRIC_SAMPLE_CAPACITY \<and>
     set (reservoir d) \<subseteq> set xs \<and>
     reservoir d = (if length xs \<le> METRIC_SAMPLE_CAPACITY then xs else reservoir d)"
  using dist_rel_fold [OF dist_rel_reset, of vs] by (simp add: dist_rel_def Let_def UINT32_MAX_def)

text \<open>
  C14. Each percentile of the report is a true nearest-rank percentile of the samples in the
  reservoir: at least the fraction of them is at most the reported value and less than that
  fraction is below it. The rounding of the double arithmetic (0.999 * n, ceil) never shifts
  the rank.
\<close>

theorem reported_percentiles_exact:
  assumes "dist_wf d" and "reservoir_count d \<noteq> 0"
    and "(num, den) \<in> {(50, 100), (90, 100), (95, 100), (99, 100), (999, 1000)}"
  defines "v \<equiv> nearest_rank (sort_reservoir d) (quantile num den)" and "xs \<equiv> reservoir d"
  shows "v \<in> set xs \<and> num * length xs \<le> den * length (filter (\<lambda>x. x \<le> v) xs) \<and>
    den * length (filter (\<lambda>x. x < v) xs) < num * length xs"
  using report_percentiles [OF assms(1,2)] assms(3) unfolding is_percentile_def v_def xs_def by auto

theorem reported_percentiles_exact_witness:
  "let d = foldl distribution_add distribution_reset [30, 10, 20];
       v = nearest_rank (sort_reservoir d) (quantile 99 100)
   in v \<in> {10, 20, 30}"
proof -
  let ?d = "foldl distribution_add distribution_reset [30, 10, 20]"
  have r: "dist_rel ?d [30, 10, 20]"
    using dist_rel_fold [OF dist_rel_reset, of "[30, 10, 20]"]
    by (simp add: bound_u32_def UINT32_MAX_def)
  have "reservoir_count ?d \<noteq> 0" "reservoir ?d = [30, 10, 20]"
    using r by (auto simp: dist_rel_def METRIC_SAMPLE_CAPACITY_def)
  then show ?thesis
    using reported_percentiles_exact [OF dist_rel_wf [OF r], of 99 100] by (auto simp: Let_def)
qed

text \<open>
  C15. The round-trip distribution and the jitter counters are exact for any sequence of fewer
  than 2^64 round-trip times: the jitter count, sum and maximum are those of the absolute
  differences of consecutive (saturated) samples.
\<close>

theorem round_trip_and_jitter_exact:
  assumes "length ts < 2 ^ 64"
  shows "let m = foldl (\<lambda>m t. rtt_observe t m) metrics_reset ts; xs = map bound_u32 ts in
    dist_rel (rtt m) xs \<and> jitter_count m = of_nat (length xs - 1) \<and>
    jitter_sum m = of_nat (\<Sum>x\<leftarrow>jitter_of xs. unat x) \<and> jitter_max m = Max (insert 0 (set (jitter_of xs)))"
proof -
  have "rtt_rel (foldl (\<lambda>m t. rtt_observe t m) metrics_reset ts) (map bound_u32 ts)"
    using assms by (induction ts rule: rev_induct) (simp_all add: rtt_rel_reset rtt_rel_observe)
  moreover have "length (jitter_of xs) = length xs - 1" for xs
    by (induction xs rule: jitter_of.induct) simp_all
  ultimately show ?thesis by (simp add: rtt_rel_def Let_def)
qed

theorem round_trip_and_jitter_exact_witness:
  "let m = foldl (\<lambda>m t. rtt_observe t m) metrics_reset [30, 10, 25] in
     jitter_count m = 2 \<and> jitter_sum m = 35 \<and> jitter_max m = 20"
  using round_trip_and_jitter_exact [of "[30, 10, 25]"]
  by (simp add: bound_u32_def UINT32_MAX_def Let_def max_def)

text \<open>
  C16. When radio_wait_idle succeeds no send callback is outstanding and the whole window is
  back in the semaphore; whether it succeeds or times out, no token is lost.
\<close>

theorem wait_idle_is_a_fence:
  assumes "slot_laws P avail pending" and "slots avail pending (world s) = unat (current_tx_window s)"
    and "unat (current_tx_window s) \<le> HARNESS_MAX_TX_WINDOW"
  shows "let r = radio_wait_idle P timeout_ms s in
    avail (world (snd r)) + pending (world (snd r)) = unat (current_tx_window s) \<and>
    (fst r = ESP_OK \<longrightarrow> pending (world (snd r)) = 0 \<and> avail (world (snd r)) = unat (current_tx_window s))"
proof -
  have "slots_ok avail pending s" using assms(2,3) by (simp add: slots_ok_def)
  from radio_wait_idle_account [OF assms(1) this, of timeout_ms]
  show ?thesis by (auto simp: Let_def slots_ok_def slots_def frame_simps)
qed

theorem wait_idle_is_a_fence_witness:
  "let r = radio_wait_idle ref_platform 1000 running_fw in
     rw_avail (world (snd r)) + rw_pending (world (snd r)) = 1 \<and>
     (fst r = ESP_OK \<longrightarrow> rw_pending (world (snd r)) = 0)"
proof -
  have w: "unat (current_tx_window running_fw) = 1" by (simp add: running_fw_def up_fw_def boot_fw_def)
  show ?thesis
    using wait_idle_is_a_fence [OF ref_slot_laws, where s = running_fw and timeout_ms = 1000] fw_okD [OF running_fw_ok] w
    by (simp add: Let_def)
qed





text \<open>
  C19. A configuration the parser accepts satisfies every limit the rest of the firmware relies
  on: sizes within the header and 250 bytes, 1 to 16 streams, a window of 1 to 32, non-zero
  rates where a mode divides by them, a valid channel and country, power within 2 to 20 dBm, a
  16-byte key when encrypted, and a rate the radio has an entry for.
\<close>

theorem accepted_configuration_is_valid:
  assumes "parse_config J root = Inr c"
  shows "run_id c \<noteq> 0 \<and> role c \<noteq> ROLE_NONE \<and> length (peer_mac c) = 6 \<and>
    0 < duration_us c \<and> duration_us c \<le> 86400000000 \<and>
    channel_valid (band_5ghz c) (channel c) \<and> length (country c) = 2 \<and>
    8 \<le> sint (tx_power_qdbm c) \<and> sint (tx_power_qdbm c) \<le> 80 \<and>
    (encryption c \<longrightarrow> length (key c) = HARNESS_KEY_SIZE) \<and>
    BENCH_HEADER_SIZE \<le> unat (packet_size c) \<and> unat (packet_size c) \<le> HARNESS_MAX_PACKET_SIZE \<and>
    0 < streams c \<and> unat (streams c) \<le> HARNESS_MAX_STREAMS \<and>
    0 < tx_window c \<and> unat (tx_window c) \<le> HARNESS_MAX_TX_WINDOW \<and>
    (mode c = MODE_LATENCY_LOAD \<longrightarrow> probe_rate c \<noteq> 0 \<and> background_rate c \<noteq> 0 \<and>
       BENCH_HEADER_SIZE \<le> unat (background_packet_size c)) \<and>
    unat (background_packet_size c) \<le> HARNESS_MAX_PACKET_SIZE \<and>
    (mode c \<in> {MODE_PING, MODE_STREAM, MODE_MULTI_STREAM} \<longrightarrow> stream_rate c \<noteq> 0) \<and>
    (\<exists>r. make_rate_config c = Some r)"
proof -
  have ok: "identity_ok c" "radio_config_ok c" "traffic_ok c"
    using parse_config_accepted [OF assms] by (simp_all add: config_ok_def)
  have "0 < tx_window c" "0 < streams c"
    using ok(3) by (auto simp: traffic_ok_def gen_config_ok_def word_neq_0_conv [symmetric])
  then show ?thesis
    using ok make_rate_config_accepted [OF ok(2)]
    by (simp add: identity_ok_def radio_config_ok_def traffic_ok_def gen_config_ok_def packet_len_ok_def
        country_ok_def)
qed

theorem accepted_configuration_is_valid_witness:
  "length (peer_mac example_config) = 6 \<and> unat (tx_window example_config) \<le> HARNESS_MAX_TX_WINDOW \<and>
     (\<exists>r. make_rate_config example_config = Some r)"
  using accepted_configuration_is_valid [OF example_parse] by simp

text \<open>
  C20. The command parser and the radio agree on the rates: a rate name is valid for a band
  exactly when the radio's rate table has an entry for it.
\<close>

theorem rate_tables_agree:
  "phy_valid (Some (phy_rate c)) (band_5ghz c) \<longleftrightarrow> (\<exists>r. make_rate_config c = Some r)"
  using make_rate_config_Some_iff [of c] by auto

text \<open>
  C21. In every reachable state that is configured, armed, running or finished, or in which a
  generator task exists, the configuration in use is one the parser accepts: the generator
  never divides by a zero rate or stream count and its frames fit the buffer.
\<close>

theorem running_configuration_is_valid:
  assumes "slot_laws P avail pending" and "peer_laws P peers" and "queue_laws P queued"
    and "reachable P J avail pending queued y"
    and "g_state (sy_fw y) \<in> {STATE_CONFIGURED, STATE_ARMED, STATE_RUNNING, STATE_FINISHED} \<or> sy_gen y \<noteq> Gen_None"
  shows "config_ok (g_config (sy_fw y)) \<and> gen_config_ok (g_config (sy_fw y))"
proof -
  have "sys_inv avail pending queued y" using reachable_inv [OF assms(1-4)] .
  then have "config_ok (g_config (sy_fw y))"
    using assms(5) by (auto simp: sys_inv_def config_in_use_def)
  then show ?thesis using config_okD(1) by blast
qed

theorem running_configuration_is_valid_witness:
  "\<exists>y. reachable ref_platform example_json rw_avail rw_pending rw_queue y \<and>
     g_state (sy_fw y) = STATE_CONFIGURED \<and> gen_config_ok (g_config (sy_fw y))"
  using running_configuration_is_valid [OF ref_slot_laws ref_peer_laws ref_queue_laws]
    ref_configured_reachable by blast





text \<open>
  C24. The MAC address a device reports in its info reply is read back unchanged by the parser
  of the device it is configured on.
\<close>

theorem address_round_trip:
  assumes "length mac = 6"
  shows "parse_mac (Some (format_mac mac)) = Some mac"
  using assms by (rule parse_format_mac)

theorem address_round_trip_witness:
  "parse_mac (Some (format_mac [0xde, 0xad, 0, 1, 0x7f, 0xff])) = Some [0xde, 0xad, 0, 1, 0x7f, 0xff]"
  using address_round_trip [of "[0xde, 0xad, 0, 1, 0x7f, 0xff]"] by simp

text \<open>
  C25. One transmission attempt of the generator, whatever its outcome (sent, refused, no
  slot), returns the token it took to the semaphore or leaves it owed by the driver's callback,
  and closes the attempt it opened in the counters.
\<close>

theorem transmission_keeps_slots_and_ledger:
  assumes "slot_laws P avail pending" and "fw_ok avail pending s"
    and "unat st < HARNESS_MAX_STREAMS" and "packet_len_ok len"
  shows "let s' = snd (send_one P ty st q len deadline scheduled s) in fw_ok avail pending s' \<and> tx_balance (g_metrics s') = tx_balance (g_metrics s)"
proof -
  obtain f where "encode_frame (so_header P ty st q len s) (fill_packet len) = Some f"
    "unat len \<le> HARNESS_MAX_PACKET_SIZE" using encode_generated [OF assms(4)] by blast
  from send_one_ok [OF assms(1-3) this] show ?thesis by (simp add: Let_def)
qed

theorem transmission_keeps_slots_and_ledger_witness:
  "fw_ok rw_avail rw_pending (snd (send_one ref_platform PACKET_STREAM 1 0 100 0 False running_fw))"
  using transmission_keeps_slots_and_ledger [OF ref_slot_laws running_fw_ok, of 1 100 PACKET_STREAM 0 0 False]
  by (simp add: packet_len_ok_def harness_limits BENCH_HEADER_SIZE_def Let_def)

text \<open>
  C26. One turn of the receiver task, an echo included, keeps the store consistent and the
  slots and the ledger balanced.
\<close>

theorem echo_keeps_slots_and_ledger:
  assumes "slot_laws P avail pending" and "queue_laws P queued" and "fw_ok avail pending s"
    and "\<forall>ev \<in> set (queued (world s)). event_wf ev"
  shows "fw_ok avail pending (receiver_step P s) \<and>
    tx_balance (g_metrics (receiver_step P s)) = tx_balance (g_metrics s)"
  using receiver_step_ok [OF assms] by simp

theorem echo_keeps_slots_and_ledger_witness:
  "fw_ok rw_avail rw_pending (receiver_step ref_platform
     (running_fw\<lparr>world := up_world\<lparr>rw_queue := [rx_event (example_frame 3) 200 9]\<rparr>\<rparr>))"
proof -
  let ?s = "running_fw\<lparr>world := up_world\<lparr>rw_queue := [rx_event (example_frame 3) 200 9]\<rparr>\<rparr>"
  have "event_wf (rx_event (example_frame 3) 200 9)"
    by (rule event_wf_posted) (simp add: example_frame(3) HARNESS_MAX_PACKET_SIZE_def)
  moreover have "fw_ok rw_avail rw_pending ?s"
    using running_fw_ok
    by (simp add: fw_ok_def slots_ok_def slots_def running_fw_def up_fw_def up_world_def boot_fw_def)
  ultimately show ?thesis
    using echo_keeps_slots_and_ledger [OF ref_slot_laws ref_queue_laws, of ?s] by simp
qed

text \<open>
  C27. A send callback gives back exactly the token of the frame it completes, so that with one
  fewer frame pending the tokens are as many as before.
\<close>

theorem completion_returns_its_slot:
  assumes "slot_laws P avail pending" and "slots avail pending (world s) < HARNESS_MAX_TX_WINDOW"
  shows "slots avail pending (world (tx_callback P ok s)) = slots avail pending (world s) + 1 \<and>
    g_state (tx_callback P ok s) = g_state s \<and> g_config (tx_callback P ok s) = g_config s"
  using tx_callback_slots [OF assms, of ok] by (simp add: callback_frame)

theorem completion_returns_its_slot_witness:
  "slots rw_avail rw_pending (world (tx_callback ref_platform True running_fw)) = 2"
  using completion_returns_its_slot [OF ref_slot_laws, of running_fw True] fw_okD(2) [OF running_fw_ok]
  by (simp add: running_fw_def up_fw_def boot_fw_def HARNESS_MAX_TX_WINDOW_def)









text \<open>
  C32. One turn of the control task prints nothing (while it waits, or without a line) or
  prints exactly one reply, which carries the id of the command it answers: the id of the line
  just read (0 if it does not parse) or of the command whose waits just ended.
\<close>

theorem one_reply_per_command:
  assumes "out_laws P out" and "control_step P J y = Some y'"
  defines "s \<equiv> sy_fw y" and "s' \<equiv> sy_fw y'"
  shows "case sy_job y of
      Some j \<Rightarrow> (case sy_job y' of
          Some j' \<Rightarrow> out (world s') = out (world s) \<and> j_cid j' = j_cid j
        | None \<Rightarrow> \<exists>doc. replied P out s (j_cid j) doc s')
    | None \<Rightarrow> (case fst (p_read_line P (world s)) of
          None \<Rightarrow> out (world s') = out (world s) \<and> sy_job y' = None
        | Some text \<Rightarrow>
            let cid = (case cj_parse J text of None \<Rightarrow> d_int 0
                       | Some root \<Rightarrow> number_item J root ''id'' (d_int 0))
            in case sy_job y' of
                 Some j' \<Rightarrow> out (world s') = out (world s) \<and> j_cid j' = cid
               | None \<Rightarrow> \<exists>doc. replied P out s cid doc s')"
proof (cases "sy_job y")
  case (Some j)
  obtain j' s1 where t: "job_turn P j s = (j', s1)" by (cases "job_turn P j s")
  then have y': "sy_job y' = j'" "s' = s1"
    using assms(2) Some by (auto simp: control_step_def s_def s'_def)
  show ?thesis
    using job_turn_told [OF assms(1) t] Some answered_replied
    by (cases j') (fastforce simp: y' silent_def)+
next
  case None
  obtain j' s1 where t: "control_turn P J s = Some (j', s1)" "sy_job y' = j'" "s' = s1"
    using assms(2) None by (auto simp: control_step_def s_def s'_def split: option.splits)
  show ?thesis
  proof (cases "fst (p_read_line P (world s))")
    case no_line: None
    then show ?thesis
      using None t out_calls [OF assms(1)] by (auto simp: control_turn_def Let_def case_prod_unfold)
  next
    case line: (Some str)
    have q: "silent out s (snd (call (p_read_line P) s))" using out_calls(12) [OF assms(1)] by (simp add: silent_def)
    let ?cid = "(case cj_parse J str of None \<Rightarrow> d_int 0
      | Some root \<Rightarrow> number_item J root ''id'' (d_int 0))"
    have told: "told P out (snd (call (p_read_line P) s)) ?cid (j', s1)"
      by (rule control_turn_told [OF assms(1) t(1) line])
    show ?thesis
      using told answered_replied [OF _ q] None line q
      by (cases j') (simp_all add: t(2,3) pending_job_def silent_def)
  qed
qed

theorem one_reply_per_command_witness:
  "case control_step ref_platform example_json
       \<lparr>sy_fw = up_fw, sy_job = Some \<lparr>j_cid = d_int 5, j_phases = [], j_answer = Reply_State\<rparr>, sy_gen = Gen_None\<rparr>
   of Some y' \<Rightarrow> sy_job y' = None \<and> (\<exists>doc. replied ref_platform rw_out up_fw (d_int 5) doc (sy_fw y'))
    | None \<Rightarrow> False"
proof -
  let ?j = "\<lparr>j_cid = d_int 5, j_phases = [], j_answer = Reply_State\<rparr>"
  let ?y = "\<lparr>sy_fw = up_fw, sy_job = Some ?j, sy_gen = Gen_None\<rparr>"
  have "control_step ref_platform example_json ?y =
      Some (?y\<lparr>sy_fw := answer_job ref_platform ?j up_fw, sy_job := None\<rparr>)"
    by (simp add: control_step_def job_turn_def)
  from this one_reply_per_command [OF ref_out_laws this] show ?thesis by simp
qed

text \<open>
  C33. The reply of a command that is answered at once (all but a stop or result that has to
  wait) tells the truth about its effect. A positive reply that names a state names the state
  the device is in. A negative one leaves the configuration, the state, the measurements, the
  window and the task handles as they were, except for the two failures after which the device
  cannot go on (radio_config, generator_start), which leave it in ERROR.
\<close>

theorem refusal_changes_nothing:
  assumes "out_laws P out" and "dispatch P J root s = Some (None, s')"
  shows "\<exists>doc. replied P out s (number_item J root ''id'' (d_int 0)) doc s' \<and>
    (if member doc ''ok'' = Some (JBool True)
     then \<forall>st. member doc ''state'' = Some st \<longrightarrow> st = JStr (harness_state_name (g_state s'))
     else \<exists>c. member doc ''code'' = Some (JStr c) \<and>
       (if c \<in> {''radio_config'', ''generator_start''} then g_state s' = STATE_ERROR
        else s' = s\<lparr>world := world s'\<rparr>))"
proof -
  obtain doc where d: "replied P out s (number_item J root ''id'' (d_int 0)) doc s'" "honest doc s s'"
    using dispatch_told [OF assms] by (auto simp: answered_def)
  have codes: "set fatal_codes = {''radio_config'', ''generator_start''}" by (simp add: fatal_codes_def)
  show ?thesis
    by (rule exI [of _ doc], rule conjI, rule d(1)) (use d(2) [unfolded honest_def codes] in metis)
qed

theorem refusal_changes_nothing_witness:
  "let arm = DObj [(''version'', DNum (d_int 2)), (''id'', DNum (d_int 5)), (''cmd'', DStr ''arm'')];
       s' = do_arm ref_platform (d_int 5) up_fw in
     dispatch ref_platform example_json arm up_fw = Some (None, s') \<and>
     (\<exists>doc. replied ref_platform rw_out up_fw (d_int 5) doc s')"
proof -
  let ?arm = "DObj [(''version'', DNum (d_int 2)), (''id'', DNum (d_int 5)), (''cmd'', DStr ''arm'')]"
  have id: "number_item example_json ?arm ''id'' (d_int 0) = d_int 5" by (simp add: json_eval)
  have "dispatch ref_platform example_json ?arm up_fw = Some (None, do_arm ref_platform (d_int 5) up_fw)"
    by (simp add: dispatch_def json_eval run_mismatch_def d_eq_int_iff HARNESS_CONTROL_VERSION_def Let_def)
  from this refusal_changes_nothing [OF ref_out_laws this] show ?thesis by (auto simp: id)
qed

text \<open>
  C34. The three posting functions of the radio callbacks append their event when the queue has
  room. With a full queue a received frame and a transmission report are counted in queue_drops
  and change nothing else; an invalid frame posted by receiver_post_drop is lost without being
  counted.
\<close>

theorem full_queue_counted:
  assumes "queue_laws P queued"
  defines "room \<equiv> \<lambda>s. length (queued (world s)) < RECEIVER_QUEUE_LENGTH"
    and "posted \<equiv> \<lambda>ev s s'. queued (world s') = queued (world s) @ [ev] \<and> g_metrics s' = g_metrics s"
    and "dropped \<equiv> \<lambda>n s s'. queued (world s') = queued (world s) \<and>
      g_metrics s' = (g_metrics s)\<lparr>totals := (totals (g_metrics s))
        \<lparr>t_queue_drops := t_queue_drops (totals (g_metrics s)) + n\<rparr>\<rparr>"
  shows "(if room s then posted (rx_event d rssi at_us) s (receiver_post_rx P d rssi at_us s)
      else dropped 1 s (receiver_post_rx P d rssi at_us s)) \<and>
    (if room s then posted (zero_event (if ok then EV_TX_OK else EV_TX_FAIL)) s (receiver_post_tx P ok s)
      else dropped 1 s (receiver_post_tx P ok s)) \<and>
    (queue_ready s \<longrightarrow> (if room s then posted (zero_event EV_DROP) s (receiver_post_drop P stale invalid s)
      else dropped 0 s (receiver_post_drop P stale invalid s)))"
proof -
  have q: "queued (snd (p_queue_send P e 0 w)) = (if length (queued w) < 64 then queued w @ [e] else queued w)"
    "fst (p_queue_send P e 0 w) \<longleftrightarrow> length (queued w) < 64" for e w
    using assms(1) by (auto simp: queue_laws_def)
  show ?thesis
    by (simp add: room_def posted_def dropped_def receiver_post_rx_def receiver_post_tx_def
        receiver_post_drop_def metrics_queue_drop_def RECEIVER_QUEUE_LENGTH_def q Let_def case_prod_unfold)
qed

theorem full_queue_counted_witness:
  "let s' = receiver_post_rx ref_platform [1, 2] 0 0 full_fw; s'' = receiver_post_drop ref_platform False True full_fw in
     t_queue_drops (totals (g_metrics s')) = 1 \<and> rw_queue (world s') = rw_queue (world full_fw) \<and>
     g_metrics s'' = g_metrics full_fw"
proof -
  have f: "length (rw_queue (world full_fw)) = 64" "queue_ready full_fw"
    "t_queue_drops (totals (g_metrics full_fw)) = 0"
    by (simp_all add: full_fw_def up_fw_def boot_fw_def boot_metrics_def metrics_reset_def zero_totals_def)
  show ?thesis
    using full_queue_counted [OF ref_queue_laws, of full_fw "[1, 2]" 0 0 True False True] f
    by (simp add: RECEIVER_QUEUE_LENGTH_def Let_def)
qed





text \<open>
  C37. The RSSI statistics of a run of fewer than 2^32 received frames are exact: count, signed
  sum (the 64-bit counter does not wrap) and histogram are those of the samples, minimum and
  maximum are theirs within the initial bounds 127 and -127.
\<close>

theorem rssi_statistics_exact:
  assumes "length xs < 2 ^ 32"
  defines "rs \<equiv> map (\<lambda>(h, r, t). r) xs" and "m \<equiv> receive_run xs"
  shows "unat (rssi_count m) = length rs \<and> sint (rssi_sum m) = (\<Sum>r\<leftarrow>rs. sint r) \<and>
    sint (rssi_min m) = Min (insert 127 (sint ` set rs)) \<and>
    sint (rssi_max m) = Max (insert (- 127) (sint ` set rs)) \<and>
    (\<forall>k < 128. unat (rssi_hist m ! k) = length (filter (\<lambda>r. rssi_index r = k) rs))"
proof -
  have ok: "rssi_ok rs m" unfolding rs_def m_def by (rule receive_run_rssi)
  have len: "length rs < 2 ^ 32" using assms(1) by (simp add: rs_def)
  then have "length (filter f rs) < 2 ^ 32" for f by (rule le_less_trans [OF length_filter_le])
  then show ?thesis
    using ok len rssi_sum_fits [of rs] by (simp add: rssi_ok_def unat_of_nat take_bit_nat_eq_self)
qed

theorem rssi_statistics_exact_witness:
  "let h = \<lparr>h_type = PACKET_STREAM, h_flags = 0, h_run_id = 1, h_stream_id = 0, h_packet_len = 28,
       h_seq = 0, h_timestamp_us = 0\<rparr>;
       m = receive_run [(h, - 60, 0), (h, - 70, 1)]
   in sint (rssi_sum m) = - 130 \<and> sint (rssi_min m) = - 70 \<and> sint (rssi_max m) = - 60"
proof -
  let ?h = "\<lparr>h_type = PACKET_STREAM, h_flags = 0, h_run_id = 1, h_stream_id = 0, h_packet_len = 28,
       h_seq = 0, h_timestamp_us = 0\<rparr>"
  show ?thesis
    using rssi_statistics_exact [of "[(?h, - 60, 0), (?h, - 70, 1)]"] by (simp add: Let_def)
qed



text \<open>
  C39. A command without a run_id skips the run check: arm in the CONFIGURED state arms
  whatever run is configured.
\<close>

theorem missing_run_id_accepted:
  assumes "string_item J root ''cmd'' = Some ''arm''" and "cj_item J root ''run_id'' = None"
    and "integer_in_range (number_item J root ''id'' (d_int 0)) 1 9007199254740991"
    and "d_eq (number_item J root ''version'' (d_int 0)) (d_int (int HARNESS_CONTROL_VERSION))"
    and "g_state s = STATE_CONFIGURED"
  shows "\<exists>s'. dispatch P J root s = Some (None, s') \<and> g_state s' = STATE_ARMED"
proof -
  have "number_item J root ''run_id'' (d_int 0) = d_int 0" using assms(2) by (simp add: number_item_def)
  then have "dispatch P J root s = Some (None, do_arm P (number_item J root ''id'' (d_int 0)) s)"
    using assms(1,3,4) by (simp add: dispatch_def run_mismatch_def d_eq_int_iff Let_def)
  then show ?thesis using assms(5) by (simp add: do_arm_def send_state_def send_json_def)
qed

theorem missing_run_id_accepted_witness:
  "let arm = DObj [(''version'', DNum (d_int 2)), (''id'', DNum (d_int 5)), (''cmd'', DStr ''arm'')] in
     \<exists>s'. dispatch ref_platform example_json arm (up_fw\<lparr>g_config := example_config, g_state := STATE_CONFIGURED\<rparr>) =
       Some (None, s') \<and> g_state s' = STATE_ARMED"
  unfolding Let_def
  by (rule missing_run_id_accepted) (simp_all add: json_eval d_eq_int_iff HARNESS_CONTROL_VERSION_def)

text \<open>
  C40. The generator sends one frame after the end of the measurement: a turn that begins just
  before end_us and whose deadline lies at or beyond it waits for the deadline and then makes
  its attempt all the same, since neither the clock nor the state is checked again.
\<close>

theorem frame_past_the_end:
  fixes P :: "'w platform" and s :: "'w fw"
  assumes C: "clock_laws P clock" and "ticking P clock"
    and run: "g_state s = STATE_RUNNING" "clock (world s) < gl_end_us l"
    and m: "mode (g_config s) \<noteq> MODE_LATENCY_LOAD" "stream_rate (g_config s) \<noteq> 0" "streams (g_config s) \<noteq> 0"
    and late: "gl_end_us l \<le> gl_start_us l + gl_index l * 1000000 div stream_rate (g_config s)"
  defines "s1 \<equiv> snd (gen_cond P l s)"
  shows "\<exists>s2 r. wait_deadline P (gl_start_us l + gl_index l * 1000000 div stream_rate (g_config s)) s1 = Some s2 \<and>
    gl_end_us l \<le> clock (world s2) \<and> gen_turn P l s1 = Some r \<and>
    t_tx_requested (totals (g_metrics (snd r))) = t_tx_requested (totals (g_metrics s2)) + 1"
proof -
  let ?c = "g_config s" and ?d = "gl_start_us l + gl_index l * 1000000 div stream_rate (g_config s)"
  have c: "g_config s1 = ?c" using gen_cond_clock_le(2) [OF C] by (simp add: s1_def)
  obtain s2 where s2: "wait_deadline P ?d s1 = Some s2" "?d \<le> clock (world s2)"
    using wait_deadline_returns [OF C] by blast
  let ?q = "send_next P (if mode ?c = MODE_PING then PACKET_PING else PACKET_STREAM)
    (unat (gl_index l mod ucast (streams ?c))) (packet_size ?c) ?d True l s2"
  have "gen_turn P l s1 = Some ((fst ?q)\<lparr>gl_index := gl_index (fst ?q) + 1\<rparr>, snd ?q)"
    using m s2(1) by (simp add: gen_turn_def gen_stream_turn_def c Let_def case_prod_unfold)
  moreover have "t_tx_requested (totals (g_metrics (snd ?q))) = t_tx_requested (totals (g_metrics s2)) + 1"
    by (rule send_next_attempts(1) [unfolded attempts_def])
  ultimately show ?thesis
    using s2(1) order_trans [OF late s2(2)] by (metis snd_conv)
qed

theorem frame_past_the_end_witness:
  "let l = (fst (gen_begin ref_platform running_fw))\<lparr>gl_index := 1\<rparr>;
       s1 = snd (gen_cond ref_platform l running_fw) in
     gl_end_us l = 1000 \<and>
     (\<exists>s2 r. wait_deadline ref_platform 5000 s1 = Some s2 \<and> 1000 \<le> rw_clock (world s2) \<and>
        gen_turn ref_platform l s1 = Some r \<and>
        t_tx_requested (totals (g_metrics (snd r))) = t_tx_requested (totals (g_metrics s2)) + 1)"
proof -
  let ?l = "(fst (gen_begin ref_platform running_fw))\<lparr>gl_index := 1\<rparr>"
  have c: "g_config running_fw = example_config" "rw_clock (world running_fw) = 0"
    "g_state running_fw = STATE_RUNNING"
    by (simp_all add: running_fw_def up_fw_def up_world_def boot_fw_def ref_world0_def)
  have r: "stream_rate example_config = 200" "mode example_config \<noteq> MODE_LATENCY_LOAD"
    "streams example_config \<noteq> 0" "duration_us example_config = 1000"
    by (simp_all add: stream_rate_def example_config_def)
  have l: "gl_end_us ?l = 1000" "gl_start_us ?l = 0" "gl_index ?l = 1"
    by (simp_all add: gen_begin_def c r Let_def case_prod_unfold)
  show ?thesis
    using frame_past_the_end [OF ref_clock_laws ref_ticking c(3), of ?l] l
    by (simp add: c r Let_def)
qed

end
